theory Spec2Isabelle
  imports Main "HOL-Library.Word" "HOL-Library.AList" "HOL-Library.Sublist"
begin

unbundle bit_operations_syntax

section \<open>Bytes, strings and errors\<close>

text \<open>
  Go's \<^verbatim>\<open>[]byte\<close> and \<^verbatim>\<open>string\<close> are both byte sequences and \<^verbatim>\<open>string(b)\<close> only
  reinterprets them; HOL's \<^typ>\<open>char\<close> is an 8-bit value, so both are \<^typ>\<open>char list\<close> here.
\<close>

type_synonym byte = char

text \<open>
  The error kinds of the specification (section 7). Messages are not modelled.
  \<open>Panic\<close> stands for a Go run-time panic (nil dereference, write to a nil map, index
  out of range); \<open>OutOfFuel\<close> for a recursion over the node graph that did not finish
  within the given bound.
\<close>

datatype error =
    ShortRead | BadMagic | UnsupportedVersion | InvalidCommandType
  | UnexpectedAttribute | TruncatedAttribute | Unsupported
  | DuplicateCreate | DuplicateChild | MissingChild | UnhandledCommand
  | Panic | OutOfFuel

text \<open>
  \<^verbatim>\<open>errors.Wrap\<close> / \<^verbatim>\<open>errors.Wrapf\<close> of github.com/pkg/errors annotate an error with a
  message and keep its cause; the library documents "If err is nil, Wrap returns nil".
\<close>

definition errors_Wrap :: "error option \<Rightarrow> string \<Rightarrow> error option" where
  "errors_Wrap err msg = (case err of None \<Rightarrow> None | Some e \<Rightarrow> Some e)"

subsection \<open>Strings (package strings, fmt)\<close>

text \<open>\<^verbatim>\<open>strings.Split(s, "/")\<close>: always at least one field.\<close>

fun split_slash :: "string \<Rightarrow> string list" where
  "split_slash [] = [[]]"
| "split_slash (c # cs) =
     (if c = CHR ''/'' then [] # split_slash cs
      else (case split_slash cs of f # fs \<Rightarrow> (c # f) # fs | [] \<Rightarrow> [[c]]))"

text \<open>\<^verbatim>\<open>strings.Join(parts, "/")\<close>.\<close>

fun join_slash :: "string list \<Rightarrow> string" where
  "join_slash [] = []"
| "join_slash [p] = p"
| "join_slash (p # ps) = p @ ''/'' @ join_slash ps"

text \<open>\<^verbatim>\<open>strings.TrimLeft(s, "/")\<close>.\<close>

definition TrimLeft_slash :: "string \<Rightarrow> string" where
  "TrimLeft_slash s = dropWhile (\<lambda>c. c = CHR ''/'') s"

text \<open>\<^verbatim>\<open>strings.HasPrefix(s, p)\<close>.\<close>

definition HasPrefix :: "string \<Rightarrow> string \<Rightarrow> bool" where
  "HasPrefix s p = (take (length p) s = p)"

text \<open>The verbs \<^verbatim>\<open>%d\<close> and \<^verbatim>\<open>%o\<close> of \<^verbatim>\<open>fmt.Sprintf\<close> on an unsigned integer.\<close>

definition digit_char :: "nat \<Rightarrow> char" where
  "digit_char d = ''0123456789'' ! d"

fun show_base :: "nat \<Rightarrow> nat \<Rightarrow> string" where
  "show_base b n =
     (if b < 2 \<or> n < b then [digit_char n] else show_base b (n div b) @ [digit_char (n mod b)])"

declare show_base.simps [simp del]

definition fmt_d :: "64 word \<Rightarrow> string" where
  "fmt_d w = show_base 10 (unat w)"

definition fmt_o :: "64 word \<Rightarrow> string" where
  "fmt_o w = show_base 8 (unat w)"

subsection \<open>Package encoding/binary, encoding/hex, unicode/utf8\<close>

text \<open>
  \<^verbatim>\<open>binary.LittleEndian.UintN(b)\<close> reads the first N/8 bytes and panics on a shorter
  slice.
\<close>

definition le_nat :: "byte list \<Rightarrow> nat" where
  "le_nat b = foldr (\<lambda>c acc. of_char c + 256 * acc) b 0"

definition Uint16 :: "byte list \<Rightarrow> error + 16 word" where
  "Uint16 b = (if length b < 2 then Inl Panic else Inr (of_nat (le_nat (take 2 b))))"

definition Uint32 :: "byte list \<Rightarrow> error + 32 word" where
  "Uint32 b = (if length b < 4 then Inl Panic else Inr (of_nat (le_nat (take 4 b))))"

definition Uint64 :: "byte list \<Rightarrow> error + 64 word" where
  "Uint64 b = (if length b < 8 then Inl Panic else Inr (of_nat (le_nat (take 8 b))))"

definition hex_digit :: "nat \<Rightarrow> char" where
  "hex_digit d = ''0123456789abcdef'' ! d"

definition hex_EncodeToString :: "byte list \<Rightarrow> string" where
  "hex_EncodeToString b =
     concat (map (\<lambda>c. [hex_digit (of_char c div 16), hex_digit (of_char c mod 16)]) b)"

text \<open>
  \<^verbatim>\<open>utf8.Valid\<close>: the well-formed byte sequences of UTF-8 (no overlong forms, no
  surrogates, nothing above U+10FFFF). \<open>utf8_runes\<close> cuts a string into the byte
  groups \<^verbatim>\<open>[]rune(s)\<close> decodes one by one (an ill-formed byte is a group of its own).
\<close>

definition cont_byte :: "nat \<Rightarrow> bool" where
  "cont_byte c = (128 \<le> c \<and> c \<le> 191)"

fun utf8_len :: "nat list \<Rightarrow> nat" where
  "utf8_len [] = 0"
| "utf8_len (a # r) =
     (if a < 128 then 1
      else case r of
        [] \<Rightarrow> 0
      | b # r1 \<Rightarrow>
          if 194 \<le> a \<and> a \<le> 223 then (if cont_byte b then 2 else 0)
          else case r1 of
            [] \<Rightarrow> 0
          | c # r2 \<Rightarrow>
              if 224 \<le> a \<and> a \<le> 239 then
                (if (if a = 224 then 160 \<le> b \<and> b \<le> 191
                     else if a = 237 then 128 \<le> b \<and> b \<le> 159 else cont_byte b)
                    \<and> cont_byte c then 3 else 0)
              else case r2 of
                [] \<Rightarrow> 0
              | d # _ \<Rightarrow>
                  if 240 \<le> a \<and> a \<le> 244 then
                    (if (if a = 240 then 144 \<le> b \<and> b \<le> 191
                         else if a = 244 then 128 \<le> b \<and> b \<le> 143 else cont_byte b)
                        \<and> cont_byte c \<and> cont_byte d then 4 else 0)
                  else 0)"

fun utf8_groups :: "nat \<Rightarrow> byte list \<Rightarrow> (bool \<times> byte list) list" where
  "utf8_groups 0 s = []"
| "utf8_groups (Suc k) s =
     (if s = [] then []
      else (let n = utf8_len (map of_char s) in
            if n = 0 then (False, take 1 s) # utf8_groups k (drop 1 s)
            else (True, take n s) # utf8_groups k (drop n s)))"

definition utf8_Valid :: "byte list \<Rightarrow> bool" where
  "utf8_Valid b = list_all fst (utf8_groups (length b) b)"

definition utf8_runes :: "string \<Rightarrow> string list" where
  "utf8_runes s = map snd (utf8_groups (length s) s)"

text \<open>\<^verbatim>\<open>ellipsis\<close> (source: the reader helpers); the caller's strings are valid UTF-8.\<close>

definition ellipsis :: "string \<Rightarrow> nat \<Rightarrow> string" where
  "ellipsis s maxLen =
     (let runes = utf8_runes s in
      if length runes \<le> maxLen then s
      else (let maxLen = (if maxLen < 3 then 3 else maxLen)
            in concat (take (maxLen - 3) runes) @ ''...''))"

section \<open>The byte reader\<close>

text \<open>
  The input is the sequence of bytes not yet consumed. \<^verbatim>\<open>peekAndDiscard(input, n)\<close>
  hands out exactly \<open>n\<close> bytes and advances, or fails when fewer remain (the enlarged
  \<^verbatim>\<open>bufio.Reader\<close> it builds for a large \<open>n\<close> never reads beyond \<open>n\<close> bytes).
\<close>

definition peekAndDiscard :: "byte list \<Rightarrow> nat \<Rightarrow> error + (byte list \<times> byte list)" where
  "peekAndDiscard input n =
     (if length input < n then Inl ShortRead else Inr (take n input, drop n input))"

text \<open>\<^verbatim>\<open>input.ReadString('\x00')\<close>: up to and including the first NUL, an error at end of input.\<close>

definition ReadString_NUL :: "byte list \<Rightarrow> error + (string \<times> byte list)" where
  "ReadString_NUL input =
     (let h = takeWhile (\<lambda>c. c \<noteq> CHR 0x00) input; r = dropWhile (\<lambda>c. c \<noteq> CHR 0x00) input
      in case r of [] \<Rightarrow> Inl ShortRead | z # r' \<Rightarrow> Inr (h @ [z], r'))"

section \<open>Stream validation\<close>

text \<open>
  Modelled from the spec: the constant \<^verbatim>\<open>BTRFS_SEND_STREAM_MAGIC\<close> is declared in a
  file that is not among the sources; section 4.2 gives its value.
\<close>

definition BTRFS_SEND_STREAM_MAGIC :: string where
  "BTRFS_SEND_STREAM_MAGIC = ''btrfs-stream''"

text \<open>
  \<^verbatim>\<open>validateBTRFSStream\<close>. The result is the returned error (\<open>None\<close> is Go's \<^verbatim>\<open>nil\<close>)
  and the input left. At both checks the variable \<^verbatim>\<open>err\<close> handed to \<^verbatim>\<open>errors.Wrapf\<close>
  is the one the preceding successful read left behind, that is \<^verbatim>\<open>nil\<close>.
\<close>

definition validateBTRFSStream :: "byte list \<Rightarrow> error option \<times> byte list" where
  "validateBTRFSStream input =
     (case ReadString_NUL input of
        Inl e \<Rightarrow> (errors_Wrap (Some e) ''failed to read stream header'', input)
      | Inr (btrfsStreamHeader, input1) \<Rightarrow>
          if butlast btrfsStreamHeader \<noteq> BTRFS_SEND_STREAM_MAGIC
          then (errors_Wrap None ''bad stream magic data'', input1)
          else (case peekAndDiscard input1 4 of
                  Inl e \<Rightarrow> (errors_Wrap (Some e) ''failed to read version bytes'', input1)
                | Inr (verB, input2) \<Rightarrow>
                    (case Uint32 verB of
                       Inl e \<Rightarrow> (Some e, input2)
                     | Inr ver \<Rightarrow>
                         if ver \<noteq> 1
                         then (errors_Wrap None ''unexpected stream version'', input2)
                         else (None, input2))))"

section \<open>Commands and attributes\<close>

text \<open>
  Modelled from the spec: the numeric constants \<^verbatim>\<open>BTRFS_SEND_C_*\<close> and
  \<^verbatim>\<open>BTRFS_SEND_A_*\<close> are declared in a file that is not among the sources; section 6
  says they are those of the kernel's \<^verbatim>\<open>btrfs_send.h\<close> enumeration, whose values
  these are.
\<close>

definition BTRFS_SEND_C_UNSPEC :: nat where "BTRFS_SEND_C_UNSPEC = 0"
definition BTRFS_SEND_C_SUBVOL :: nat where "BTRFS_SEND_C_SUBVOL = 1"
definition BTRFS_SEND_C_SNAPSHOT :: nat where "BTRFS_SEND_C_SNAPSHOT = 2"
definition BTRFS_SEND_C_MKFILE :: nat where "BTRFS_SEND_C_MKFILE = 3"
definition BTRFS_SEND_C_MKDIR :: nat where "BTRFS_SEND_C_MKDIR = 4"
definition BTRFS_SEND_C_MKNOD :: nat where "BTRFS_SEND_C_MKNOD = 5"
definition BTRFS_SEND_C_MKFIFO :: nat where "BTRFS_SEND_C_MKFIFO = 6"
definition BTRFS_SEND_C_MKSOCK :: nat where "BTRFS_SEND_C_MKSOCK = 7"
definition BTRFS_SEND_C_SYMLINK :: nat where "BTRFS_SEND_C_SYMLINK = 8"
definition BTRFS_SEND_C_RENAME :: nat where "BTRFS_SEND_C_RENAME = 9"
definition BTRFS_SEND_C_LINK :: nat where "BTRFS_SEND_C_LINK = 10"
definition BTRFS_SEND_C_UNLINK :: nat where "BTRFS_SEND_C_UNLINK = 11"
definition BTRFS_SEND_C_RMDIR :: nat where "BTRFS_SEND_C_RMDIR = 12"
definition BTRFS_SEND_C_SET_XATTR :: nat where "BTRFS_SEND_C_SET_XATTR = 13"
definition BTRFS_SEND_C_REMOVE_XATTR :: nat where "BTRFS_SEND_C_REMOVE_XATTR = 14"
definition BTRFS_SEND_C_WRITE :: nat where "BTRFS_SEND_C_WRITE = 15"
definition BTRFS_SEND_C_CLONE :: nat where "BTRFS_SEND_C_CLONE = 16"
definition BTRFS_SEND_C_TRUNCATE :: nat where "BTRFS_SEND_C_TRUNCATE = 17"
definition BTRFS_SEND_C_CHMOD :: nat where "BTRFS_SEND_C_CHMOD = 18"
definition BTRFS_SEND_C_CHOWN :: nat where "BTRFS_SEND_C_CHOWN = 19"
definition BTRFS_SEND_C_UTIMES :: nat where "BTRFS_SEND_C_UTIMES = 20"
definition BTRFS_SEND_C_END :: nat where "BTRFS_SEND_C_END = 21"
definition BTRFS_SEND_C_UPDATE_EXTENT :: nat where "BTRFS_SEND_C_UPDATE_EXTENT = 22"
definition BTRFS_SEND_C_FALLOCATE :: nat where "BTRFS_SEND_C_FALLOCATE = 23"
definition BTRFS_SEND_C_FILEATTR :: nat where "BTRFS_SEND_C_FILEATTR = 24"
definition BTRFS_SEND_C_ENCODED_WRITE :: nat where "BTRFS_SEND_C_ENCODED_WRITE = 25"
definition BTRFS_SEND_C_ENABLE_VERITY :: nat where "BTRFS_SEND_C_ENABLE_VERITY = 26"
definition BTRFS_SEND_C_MAX :: nat where "BTRFS_SEND_C_MAX = 26"
definition BTRFS_SEND_C_MAX_PLUS_ONE :: nat where "BTRFS_SEND_C_MAX_PLUS_ONE = 27"

definition BTRFS_SEND_A_UNSPEC :: nat where "BTRFS_SEND_A_UNSPEC = 0"
definition BTRFS_SEND_A_UUID :: nat where "BTRFS_SEND_A_UUID = 1"
definition BTRFS_SEND_A_CTRANSID :: nat where "BTRFS_SEND_A_CTRANSID = 2"
definition BTRFS_SEND_A_INO :: nat where "BTRFS_SEND_A_INO = 3"
definition BTRFS_SEND_A_SIZE :: nat where "BTRFS_SEND_A_SIZE = 4"
definition BTRFS_SEND_A_MODE :: nat where "BTRFS_SEND_A_MODE = 5"
definition BTRFS_SEND_A_UID :: nat where "BTRFS_SEND_A_UID = 6"
definition BTRFS_SEND_A_GID :: nat where "BTRFS_SEND_A_GID = 7"
definition BTRFS_SEND_A_RDEV :: nat where "BTRFS_SEND_A_RDEV = 8"
definition BTRFS_SEND_A_CTIME :: nat where "BTRFS_SEND_A_CTIME = 9"
definition BTRFS_SEND_A_MTIME :: nat where "BTRFS_SEND_A_MTIME = 10"
definition BTRFS_SEND_A_ATIME :: nat where "BTRFS_SEND_A_ATIME = 11"
definition BTRFS_SEND_A_OTIME :: nat where "BTRFS_SEND_A_OTIME = 12"
definition BTRFS_SEND_A_XATTR_NAME :: nat where "BTRFS_SEND_A_XATTR_NAME = 13"
definition BTRFS_SEND_A_XATTR_DATA :: nat where "BTRFS_SEND_A_XATTR_DATA = 14"
definition BTRFS_SEND_A_PATH :: nat where "BTRFS_SEND_A_PATH = 15"
definition BTRFS_SEND_A_PATH_TO :: nat where "BTRFS_SEND_A_PATH_TO = 16"
definition BTRFS_SEND_A_PATH_LINK :: nat where "BTRFS_SEND_A_PATH_LINK = 17"
definition BTRFS_SEND_A_FILE_OFFSET :: nat where "BTRFS_SEND_A_FILE_OFFSET = 18"
definition BTRFS_SEND_A_DATA :: nat where "BTRFS_SEND_A_DATA = 19"
definition BTRFS_SEND_A_CLONE_UUID :: nat where "BTRFS_SEND_A_CLONE_UUID = 20"
definition BTRFS_SEND_A_CLONE_CTRANSID :: nat where "BTRFS_SEND_A_CLONE_CTRANSID = 21"
definition BTRFS_SEND_A_CLONE_PATH :: nat where "BTRFS_SEND_A_CLONE_PATH = 22"
definition BTRFS_SEND_A_CLONE_OFFSET :: nat where "BTRFS_SEND_A_CLONE_OFFSET = 23"
definition BTRFS_SEND_A_CLONE_LEN :: nat where "BTRFS_SEND_A_CLONE_LEN = 24"
definition BTRFS_SEND_A_MAX_V1_PLUS_ONE :: nat where "BTRFS_SEND_A_MAX_V1_PLUS_ONE = 25"

text \<open>The operations, in the order of the source's \<^verbatim>\<open>iota\<close> (the ordinal is the JSON state).\<close>

datatype operation = opUnspec | opIgnore | opCreate | opModify | opDelete | opRename | opEnd

text \<open>
  \<^verbatim>\<open>initCommandsDefinitions\<close>: the table from command type to operation, filled by
  indexed assignment as in the source (the \<^verbatim>\<open>Name\<close> column only feeds log messages).
\<close>

definition commandsDefs :: "operation list" where
  "commandsDefs =
     (replicate BTRFS_SEND_C_MAX_PLUS_ONE opUnspec)
     [BTRFS_SEND_C_UNSPEC := opUnspec,
      BTRFS_SEND_C_SUBVOL := opCreate,
      BTRFS_SEND_C_SNAPSHOT := opCreate,
      BTRFS_SEND_C_MKFILE := opCreate,
      BTRFS_SEND_C_MKDIR := opCreate,
      BTRFS_SEND_C_MKNOD := opCreate,
      BTRFS_SEND_C_MKFIFO := opCreate,
      BTRFS_SEND_C_MKSOCK := opCreate,
      BTRFS_SEND_C_SYMLINK := opCreate,
      BTRFS_SEND_C_LINK := opRename,
      BTRFS_SEND_C_RENAME := opRename,
      BTRFS_SEND_C_UNLINK := opDelete,
      BTRFS_SEND_C_RMDIR := opDelete,
      BTRFS_SEND_C_WRITE := opModify,
      BTRFS_SEND_C_CLONE := opModify,
      BTRFS_SEND_C_TRUNCATE := opModify,
      BTRFS_SEND_C_CHMOD := opModify,
      BTRFS_SEND_C_CHOWN := opModify,
      BTRFS_SEND_C_UTIMES := opIgnore,
      BTRFS_SEND_C_SET_XATTR := opModify,
      BTRFS_SEND_C_REMOVE_XATTR := opModify,
      BTRFS_SEND_C_END := opEnd,
      BTRFS_SEND_C_UPDATE_EXTENT := opModify,
      BTRFS_SEND_C_FALLOCATE := opIgnore,
      BTRFS_SEND_C_FILEATTR := opIgnore,
      BTRFS_SEND_C_ENCODED_WRITE := opIgnore,
      BTRFS_SEND_C_ENABLE_VERITY := opIgnore]"

text \<open>A command instance: \<^verbatim>\<open>Type\<close> is the table entry of \<^verbatim>\<open>OriginalType\<close>.\<close>

record commandInst =
  OriginalType :: nat
  data :: "byte list"

definition Type_Op :: "commandInst \<Rightarrow> operation" where
  "Type_Op command = commandsDefs ! OriginalType command"

text \<open>The values a converter returns (Go's \<^verbatim>\<open>interface{}\<close>).\<close>

datatype attr_val =
    VUint64 "64 word"
  | VString string
  | VBytes "byte list" bool
  | VTime "64 word" "32 word"

text \<open>
  A converter is handed the slice \<^verbatim>\<open>command.data[4 : 4+paramLength]\<close>: the bytes \<open>b\<close> of
  the value and, within the capacity of the slice, the bytes \<open>behind\<close> it, which are the
  rest of the command's data. Only \<^verbatim>\<open>attrConverterTime\<close> has slice expressions that can
  go beyond the length of \<open>b\<close>.
\<close>

definition attrConverterBytes :: "byte list \<Rightarrow> byte list \<Rightarrow> error + attr_val" where
  "attrConverterBytes b behind = Inr (VBytes b (utf8_Valid b))"

definition attrConverterUint64 :: "byte list \<Rightarrow> byte list \<Rightarrow> error + attr_val" where
  "attrConverterUint64 b behind =
     (case Uint64 b of Inl e \<Rightarrow> Inl e | Inr w \<Rightarrow> Inr (VUint64 w))"

definition attrConverterString :: "byte list \<Rightarrow> byte list \<Rightarrow> error + attr_val" where
  "attrConverterString b behind = Inr (VString b)"

definition attrConverterPath :: "byte list \<Rightarrow> byte list \<Rightarrow> error + attr_val" where
  "attrConverterPath b behind =
     (let path = b; path = TrimLeft_slash path in Inr (VString path))"

definition attrConverterPathLink :: "byte list \<Rightarrow> byte list \<Rightarrow> error + attr_val" where
  "attrConverterPathLink b behind = (let path = b in Inr (VString path))"

definition attrConverterUUID :: "byte list \<Rightarrow> byte list \<Rightarrow> error + attr_val" where
  "attrConverterUUID b behind = Inr (VString (hex_EncodeToString b))"

text \<open>
  \<^verbatim>\<open>attrConverterTime\<close> reads \<^verbatim>\<open>b[:8]\<close> and \<^verbatim>\<open>b[8:12]\<close>. A slice expression may reach
  beyond the length of \<open>b\<close> into its capacity, so for a value shorter than 12 bytes the
  bytes read are those of the value followed by those behind it. How far the capacity
  goes on behind the command's data, into the buffer of the reader, is for the reader to
  choose; the model is that of the least capacity, the end of the command's data, and an
  expression that would reach farther panics. (No run comes here: the time attributes
  are read for \<^verbatim>\<open>UTIMES\<close> only, which the loop ignores.)
\<close>

definition attrConverterTime :: "byte list \<Rightarrow> byte list \<Rightarrow> error + attr_val" where
  "attrConverterTime b behind =
     (let buf = b @ behind in
      if length buf < 12 then Inl Panic
      else Inr (VTime (of_nat (le_nat (take 8 buf))) (of_nat (le_nat (take 4 (drop 8 buf))))))"

text \<open>\<^verbatim>\<open>initAttributeDefinitions\<close>; \<open>None\<close> is the \<^verbatim>\<open>nil\<close> converter of \<^verbatim>\<open>UNSPEC\<close>.\<close>

definition attrDefs :: "(byte list \<Rightarrow> byte list \<Rightarrow> error + attr_val) option list" where
  "attrDefs =
     (replicate BTRFS_SEND_A_MAX_V1_PLUS_ONE None)
     [BTRFS_SEND_A_UNSPEC := None,
      BTRFS_SEND_A_UUID := Some attrConverterUUID,
      BTRFS_SEND_A_CTRANSID := Some attrConverterUint64,
      BTRFS_SEND_A_INO := Some attrConverterUint64,
      BTRFS_SEND_A_SIZE := Some attrConverterUint64,
      BTRFS_SEND_A_MODE := Some attrConverterUint64,
      BTRFS_SEND_A_UID := Some attrConverterUint64,
      BTRFS_SEND_A_GID := Some attrConverterUint64,
      BTRFS_SEND_A_RDEV := Some attrConverterUint64,
      BTRFS_SEND_A_CTIME := Some attrConverterTime,
      BTRFS_SEND_A_MTIME := Some attrConverterTime,
      BTRFS_SEND_A_ATIME := Some attrConverterTime,
      BTRFS_SEND_A_OTIME := Some attrConverterTime,
      BTRFS_SEND_A_XATTR_NAME := Some attrConverterString,
      BTRFS_SEND_A_XATTR_DATA := Some attrConverterBytes,
      BTRFS_SEND_A_PATH := Some attrConverterPath,
      BTRFS_SEND_A_PATH_TO := Some attrConverterPath,
      BTRFS_SEND_A_PATH_LINK := Some attrConverterPathLink,
      BTRFS_SEND_A_FILE_OFFSET := Some attrConverterUint64,
      BTRFS_SEND_A_DATA := Some attrConverterBytes,
      BTRFS_SEND_A_CLONE_UUID := Some attrConverterUUID,
      BTRFS_SEND_A_CLONE_CTRANSID := Some attrConverterUint64,
      BTRFS_SEND_A_CLONE_PATH := Some attrConverterPath,
      BTRFS_SEND_A_CLONE_OFFSET := Some attrConverterUint64,
      BTRFS_SEND_A_CLONE_LEN := Some attrConverterUint64]"

text \<open>
  \<^verbatim>\<open>readCommand\<close>: size (u32), type (u16), checksum (4 bytes, not verified), then
  \<open>size\<close> bytes of attributes.
\<close>

definition readCommand :: "byte list \<Rightarrow> error + (commandInst \<times> byte list)" where
  "readCommand input =
     (case peekAndDiscard input 4 of
        Inl e \<Rightarrow> Inl ShortRead
      | Inr (cmdSizeB, input1) \<Rightarrow>
     (case Uint32 cmdSizeB of
        Inl e \<Rightarrow> Inl e
      | Inr cmdSize \<Rightarrow>
     (case peekAndDiscard input1 2 of
        Inl e \<Rightarrow> Inl ShortRead
      | Inr (cmdTypeB, input2) \<Rightarrow>
     (case Uint16 cmdTypeB of
        Inl e \<Rightarrow> Inl e
      | Inr cmdType \<Rightarrow>
          if unat cmdType > BTRFS_SEND_C_MAX then Inl InvalidCommandType
          else
     (case peekAndDiscard input2 4 of
        Inl e \<Rightarrow> Inl ShortRead
      | Inr (crc, input3) \<Rightarrow>
     (case peekAndDiscard input3 (unat cmdSize) of
        Inl e \<Rightarrow> Inl ShortRead
      | Inr (cmdData, input4) \<Rightarrow>
          Inr (\<lparr>OriginalType = unat cmdType, data = cmdData\<rparr>, input4)))))))"

text \<open>
  \<^verbatim>\<open>ReadParam\<close>: the next attribute of the command, if it is of the expected type. The
  command's remaining data is returned with the value (the source advances
  \<^verbatim>\<open>command.data\<close> in place). The message of the type mismatch indexes \<^verbatim>\<open>attrDefs\<close>
  with the type found, which panics for a type beyond the table.
\<close>

definition ReadParam :: "commandInst \<Rightarrow> nat \<Rightarrow> error + (attr_val \<times> commandInst)" where
  "ReadParam command expectedType =
     (if length (data command) < 4 then Inl TruncatedAttribute
      else case Uint16 (take 2 (data command)) of
        Inl e \<Rightarrow> Inl e
      | Inr paramType \<Rightarrow>
          if unat paramType \<noteq> expectedType then
            (if unat paramType < BTRFS_SEND_A_MAX_V1_PLUS_ONE
                \<and> expectedType < BTRFS_SEND_A_MAX_V1_PLUS_ONE
             then Inl UnexpectedAttribute else Inl Panic)
          else case Uint16 (take 2 (drop 2 (data command))) of
            Inl e \<Rightarrow> Inl e
          | Inr paramLength \<Rightarrow>
              if unat paramLength + 4 > length (data command) then Inl TruncatedAttribute
              else if \<not> unat paramType < BTRFS_SEND_A_MAX_V1_PLUS_ONE then Inl Panic
              else case attrDefs ! unat paramType of
                None \<Rightarrow> Inl Panic
              | Some converter \<Rightarrow>
                  (case converter (take (unat paramLength) (drop 4 (data command)))
                          (drop (4 + unat paramLength) (data command)) of
                     Inl e \<Rightarrow> Inl e
                   | Inr converted \<Rightarrow>
                       Inr (converted,
                            command\<lparr>data := drop (4 + unat paramLength) (data command)\<rparr>)))"

section \<open>The diff tree\<close>

datatype DiffNodeType =
    DiffNodeTypeUnknown | DiffNodeTypeFile | DiffNodeTypeDir | DiffNodeTypeFIFO
  | DiffNodeTypeSock | DiffNodeTypeSymLink | DiffNodeTypeNode

datatype DiffNodeReason =
    DiffNodeReasonRenameSrc | DiffNodeReasonRenameDest | DiffNodeReasonLinkDest

text \<open>
  Nodes are shared through pointers (parent back-pointers, relation targets, children
  handed from one map to another), so they live in an explicit store: a \<open>ref\<close> is the
  address of a node, \<open>None\<close> is the \<^verbatim>\<open>nil\<close> pointer. \<open>Children\<close> is \<open>None\<close> for the
  \<^verbatim>\<open>nil\<close> map (reads find nothing, a write panics) and otherwise an association list
  with distinct keys. Go iterates a map in no particular order; the model iterates in
  the order of the list, new keys going last. A relation slice is the list of its
  elements, and \<^verbatim>\<open>append\<close> makes a new list. Go leaves open how much capacity \<^verbatim>\<open>append\<close>
  gives a new array; the model is that of the least, the length, under which every
  \<^verbatim>\<open>append\<close> makes a new array. The slice that the rename handler takes from the source
  node shares the backing array of the source; where the runtime has left capacity in
  that array, an \<^verbatim>\<open>append\<close> to one of the two writes into the array of the other (the
  entry the source gets after the rename takes the place of the last entry of the
  destination), which the model does not show. The two agree as long as no source of a
  rename has a relation slice with capacity left.
\<close>

type_synonym ref = nat

type_synonym DiffNodeRelation = "ref \<times> DiffNodeReason"

record DiffNode =
  NodeType :: DiffNodeType
  Path :: string
  State :: operation
  Relations :: "DiffNodeRelation list"
  Changes :: "string list"
  Parent :: "ref option"
  Children :: "(string \<times> ref) list option"
  DeletedInSnapshot :: bool
  lastDataWrittenOffset :: "64 word"
  lastDataWrittenLen :: "64 word"

record heap =
  nodes :: "ref \<Rightarrow> DiffNode"
  nxt :: ref

record Diff =
  root :: ref

text \<open>A composite literal \<^verbatim>\<open>&DiffNode{...}\<close>: the fields it names, the others zero.\<close>

definition new_DiffNode ::
  "DiffNodeType \<Rightarrow> string \<Rightarrow> operation \<Rightarrow> DiffNodeRelation list \<Rightarrow> ref option
     \<Rightarrow> (string \<times> ref) list option \<Rightarrow> DiffNode" where
  "new_DiffNode t p st rels par ch =
     \<lparr>NodeType = t, Path = p, State = st, Relations = rels, Changes = [], Parent = par,
      Children = ch, DeletedInSnapshot = False,
      lastDataWrittenOffset = 0, lastDataWrittenLen = 0\<rparr>"

definition empty_heap :: heap where
  "empty_heap =
     \<lparr>nodes = (\<lambda>_. new_DiffNode DiffNodeTypeUnknown [] opUnspec [] None None), nxt = 0\<rparr>"

subsection \<open>State and errors\<close>

text \<open>
  A function that mutates nodes and may fail takes the store and returns its result, or
  the error, together with the store as it has left it.
\<close>

type_synonym 'a M = "heap \<Rightarrow> (error + 'a) \<times> heap"

definition ret :: "'a \<Rightarrow> 'a M" where
  "ret x = (\<lambda>h. (Inr x, h))"

definition fail :: "error \<Rightarrow> 'a M" where
  "fail e = (\<lambda>h. (Inl e, h))"

definition bnd :: "'a M \<Rightarrow> ('a \<Rightarrow> 'b M) \<Rightarrow> 'b M" where
  "bnd m f = (\<lambda>h. case m h of (Inl e, h') \<Rightarrow> (Inl e, h') | (Inr x, h') \<Rightarrow> f x h')"

definition gets :: "(heap \<Rightarrow> 'a) \<Rightarrow> 'a M" where
  "gets f = (\<lambda>h. (Inr (f h), h))"

definition upd :: "ref \<Rightarrow> (DiffNode \<Rightarrow> DiffNode) \<Rightarrow> unit M" where
  "upd a f = (\<lambda>h. (Inr (), h\<lparr>nodes := (nodes h)(a := f (nodes h a))\<rparr>))"

definition alloc :: "DiffNode \<Rightarrow> ref M" where
  "alloc n = (\<lambda>h. (Inr (nxt h), h\<lparr>nodes := (nodes h)(nxt h := n), nxt := Suc (nxt h)\<rparr>))"

text \<open>A \<^verbatim>\<open>for\<close> loop over a list that stops at the first error.\<close>

fun forM :: "'a list \<Rightarrow> ('a \<Rightarrow> unit M) \<Rightarrow> unit M" where
  "forM [] f = ret ()"
| "forM (x # xs) f = bnd (f x) (\<lambda>_. forM xs f)"

subsection \<open>Reading the tree\<close>

definition children_of :: "heap \<Rightarrow> ref \<Rightarrow> (string \<times> ref) list" where
  "children_of h n = (case Children (nodes h n) of None \<Rightarrow> [] | Some m \<Rightarrow> m)"

text \<open>\<^verbatim>\<open>n.Children[key]\<close>.\<close>

definition child :: "heap \<Rightarrow> ref \<Rightarrow> string \<Rightarrow> ref option" where
  "child h n key = map_of (children_of h n) key"

text \<open>\<^verbatim>\<open>n.Children[key] = v\<close>; assignment to an entry of a \<^verbatim>\<open>nil\<close> map panics.\<close>

definition set_child :: "ref \<Rightarrow> string \<Rightarrow> ref \<Rightarrow> unit M" where
  "set_child n key v =
     (\<lambda>h. case Children (nodes h n) of
            None \<Rightarrow> (Inl Panic, h)
          | Some m \<Rightarrow> upd n (\<lambda>x. x\<lparr>Children := Some (AList.update key v m)\<rparr>) h)"

text \<open>The path splitting shared by \<^verbatim>\<open>getNodeByPath\<close> and \<^verbatim>\<open>mkdirp\<close>.\<close>

definition path_entries :: "string \<Rightarrow> string list" where
  "path_entries path =
     (case split_slash path of
        [] \<Rightarrow> []
      | e0 # rest \<Rightarrow> if e0 = [] then rest else e0 # rest)"

fun walk :: "heap \<Rightarrow> ref \<Rightarrow> string list \<Rightarrow> ref option" where
  "walk h currentNode [] = Some currentNode"
| "walk h currentNode (entry # entries) =
     (case child h currentNode entry of
        None \<Rightarrow> None
      | Some c \<Rightarrow> walk h c entries)"

definition getNodeByPath :: "Diff \<Rightarrow> string \<Rightarrow> heap \<Rightarrow> ref option" where
  "getNodeByPath d path h = walk h (root d) (path_entries path)"

definition getLastPathPart :: "string \<Rightarrow> string" where
  "getLastPathPart path = last (split_slash path)"

text \<open>\<^verbatim>\<open>GetChainPath\<close> and \<^verbatim>\<open>root\<close> climb the parent pointers; \<open>k\<close> bounds the climb.\<close>

fun GetChainPath :: "nat \<Rightarrow> heap \<Rightarrow> ref \<Rightarrow> string option" where
  "GetChainPath 0 h n = None"
| "GetChainPath (Suc k) h n =
     (case Parent (nodes h n) of
        Some p \<Rightarrow>
          (case GetChainPath k h p of
             None \<Rightarrow> None
           | Some pp \<Rightarrow> Some (pp @ ''/'' @ Path (nodes h n)))
      | None \<Rightarrow> Some (Path (nodes h n)))"

fun DiffNode_root :: "nat \<Rightarrow> heap \<Rightarrow> ref \<Rightarrow> ref option" where
  "DiffNode_root 0 h n = None"
| "DiffNode_root (Suc k) h n =
     (case Parent (nodes h n) of
        Some p \<Rightarrow> DiffNode_root k h p
      | None \<Rightarrow> Some n)"

text \<open>
  The regular expression \<^verbatim>\<open>o\d+-\d+-\d+\<close> under \<^verbatim>\<open>MatchString\<close>, which looks for a match
  anywhere in the string. \<open>match_here\<close> matches at the head: after the letter, each of
  the first two digit runs must take all digits in front of the dash.
\<close>

definition is_digit :: "char \<Rightarrow> bool" where
  "is_digit c = (48 \<le> (of_char c :: nat) \<and> (of_char c :: nat) \<le> 57)"

definition match_here :: "string \<Rightarrow> bool" where
  "match_here s =
     (case s of
        [] \<Rightarrow> False
      | c # r \<Rightarrow>
          c = CHR ''o'' \<and>
          (let d1 = takeWhile is_digit r; r1 = dropWhile is_digit r in
           d1 \<noteq> [] \<and>
           (case r1 of
              [] \<Rightarrow> False
            | c1 # r2 \<Rightarrow>
                c1 = CHR ''-'' \<and>
                (let d2 = takeWhile is_digit r2; r3 = dropWhile is_digit r2 in
                 d2 \<noteq> [] \<and>
                 (case r3 of
                    [] \<Rightarrow> False
                  | c2 # r4 \<Rightarrow>
                      c2 = CHR ''-'' \<and> (case r4 of [] \<Rightarrow> False | c3 # _ \<Rightarrow> is_digit c3))))))"

fun regexNewNode_MatchString :: "string \<Rightarrow> bool" where
  "regexNewNode_MatchString [] = False"
| "regexNewNode_MatchString (c # cs) =
     (match_here (c # cs) \<or> regexNewNode_MatchString cs)"

definition isBTRFSTemporaryNode :: "nat \<Rightarrow> heap \<Rightarrow> ref \<Rightarrow> bool option" where
  "isBTRFSTemporaryNode k h n =
     (case Parent (nodes h n) of
        None \<Rightarrow> Some False
      | Some p \<Rightarrow>
          (case DiffNode_root k h n of
             None \<Rightarrow> None
           | Some r \<Rightarrow> Some (p = r \<and> regexNewNode_MatchString (Path (nodes h n)))))"

text \<open>\<^verbatim>\<open>findRelation\<close> and \<^verbatim>\<open>followRenameChainSrc\<close>; \<open>k\<close> bounds the chain.\<close>

definition findRelation :: "heap \<Rightarrow> ref \<Rightarrow> DiffNodeReason \<Rightarrow> DiffNodeRelation option" where
  "findRelation h n reason = find (\<lambda>rel. snd rel = reason) (Relations (nodes h n))"

fun followRenameChainSrc :: "nat \<Rightarrow> heap \<Rightarrow> ref \<Rightarrow> ref option" where
  "followRenameChainSrc 0 h n = None"
| "followRenameChainSrc (Suc k) h n =
     (case findRelation h n DiffNodeReasonRenameSrc of
        Some rel \<Rightarrow> followRenameChainSrc k h (fst rel)
      | None \<Rightarrow> Some n)"

text \<open>
  \<^verbatim>\<open>traverse\<close> calls its argument on every child and then on the child's subtree. The
  callbacks of the source only read the tree, so the traversal is the list of the
  nodes in the order of the calls; \<open>k\<close> bounds the depth.
\<close>

fun traverse_list :: "nat \<Rightarrow> heap \<Rightarrow> ref list \<Rightarrow> ref list option" where
  "traverse_list k h [] = Some []"
| "traverse_list 0 h (v # vs) = None"
| "traverse_list (Suc k) h (v # vs) =
     (case traverse_list k h (map snd (children_of h v)) of
        None \<Rightarrow> None
      | Some sub \<Rightarrow>
          (case traverse_list (Suc k) h vs of
             None \<Rightarrow> None
           | Some rest \<Rightarrow> Some (v # sub @ rest)))"

definition traverse :: "nat \<Rightarrow> heap \<Rightarrow> ref \<Rightarrow> ref list option" where
  "traverse k h n = traverse_list k h (map snd (children_of h n))"

subsection \<open>Changing the tree\<close>

text \<open>\<^verbatim>\<open>mkdirp\<close>: the loop over the entries; the last entry is the one with no entry after it.\<close>

fun mkdirp_loop :: "bool \<Rightarrow> bool \<Rightarrow> ref \<Rightarrow> string list \<Rightarrow> ref M" where
  "mkdirp_loop old new currentNode [] = ret currentNode"
| "mkdirp_loop old new currentNode (entry # entries) =
     (\<lambda>h. case child h currentNode entry of
            Some existing \<Rightarrow> mkdirp_loop old new existing entries h
          | None \<Rightarrow>
              (let createdInSnapshot = (if entries = [] then new else old);
                   state = (if createdInSnapshot then opCreate else opUnspec)
               in bnd (alloc (new_DiffNode DiffNodeTypeDir entry state [] (Some currentNode)
                                (Some [])))
                    (\<lambda>newNode. bnd (set_child currentNode entry newNode)
                    (\<lambda>_. mkdirp_loop old new newNode entries)) h))"

definition mkdirp :: "ref \<Rightarrow> string \<Rightarrow> bool \<Rightarrow> bool \<Rightarrow> ref M" where
  "mkdirp n path oldNodesAreCreatedInSnapshot newNodesAreCreatedInSnapshot =
     mkdirp_loop oldNodesAreCreatedInSnapshot newNodesAreCreatedInSnapshot n
       (path_entries path)"

definition getNodeParentOrMkdir :: "Diff \<Rightarrow> string \<Rightarrow> ref M" where
  "getNodeParentOrMkdir d path =
     (let parts = split_slash path; parentPath = join_slash (butlast parts)
      in if parentPath = [] then ret (root d) else mkdirp (root d) parentPath False False)"

text \<open>
  \<^verbatim>\<open>deleteNode\<close>: the key of the first entry that holds the node; not finding one, or
  finding it under the empty key, is the error.
\<close>

definition deleteNode :: "ref \<Rightarrow> ref \<Rightarrow> unit M" where
  "deleteNode n node =
     bnd (gets (\<lambda>h. case find (\<lambda>kv. snd kv = node) (children_of h n) of
                      Some kv \<Rightarrow> fst kv | None \<Rightarrow> []))
     (\<lambda>key. if key = [] then fail MissingChild
            else bnd (upd n (\<lambda>x. x\<lparr>Children := map_option (AList.delete key) (Children x)\<rparr>))
                 (\<lambda>_. upd node (\<lambda>x. x\<lparr>Parent := None\<rparr>)))"

definition removeFromParent :: "ref \<Rightarrow> unit M" where
  "removeFromParent n =
     bnd (gets (\<lambda>h. Parent (nodes h n)))
     (\<lambda>par. case par of
              Some parent \<Rightarrow> deleteNode parent n
            | None \<Rightarrow> ret ())"

text \<open>
  \<^verbatim>\<open>addNode\<close>. \<open>addNode_body\<close> is the body of the method with the recursive call (made
  for every child of a replaced node) as a parameter; \<open>addNode k\<close> allows \<open>k\<close> nested
  calls. The loop ranges over the replaced node's children as they are when it starts
  and, as a Go \<^verbatim>\<open>range\<close> does, produces no entry that has been removed before its turn.
\<close>

definition addNode_body :: "(ref \<Rightarrow> ref \<Rightarrow> unit M) \<Rightarrow> ref \<Rightarrow> ref \<Rightarrow> unit M" where
  "addNode_body rec n node =
     bnd (upd n (\<lambda>x. if NodeType x = DiffNodeTypeUnknown
                     then x\<lparr>NodeType := DiffNodeTypeDir\<rparr> else x))
     (\<lambda>_. bnd (gets (\<lambda>h. child h n (Path (nodes h node))))
     (\<lambda>existingNode. bnd (gets (\<lambda>h. case existingNode of
                                     Some e \<Rightarrow> State (nodes h e) \<noteq> opDelete
                                   | None \<Rightarrow> False))
     (\<lambda>notDeleted. if notDeleted then fail DuplicateChild
       else bnd (gets (\<lambda>h. Parent (nodes h node)))
     (\<lambda>par. bnd (case par of Some p \<Rightarrow> deleteNode p node | None \<Rightarrow> ret ())
     (\<lambda>_. bnd (upd node (\<lambda>x. x\<lparr>Parent := Some n\<rparr>))
     (\<lambda>_. case existingNode of
            Some e \<Rightarrow>
              bnd (removeFromParent e)
              (\<lambda>_. bnd (gets (\<lambda>h. Relations (nodes h e)))
              (\<lambda>rels. bnd (upd node (\<lambda>x. x\<lparr>Relations := Relations x @ rels\<rparr>))
              (\<lambda>_. bnd (gets (\<lambda>h. children_of h e))
              (\<lambda>cs. bnd (forM cs (\<lambda>kv. bnd (gets (\<lambda>h. child h e (fst kv)))
                                        (\<lambda>cur. case cur of
                                                 None \<Rightarrow> ret ()
                                               | Some val \<Rightarrow> rec node val)))
              (\<lambda>_. bnd (upd node (\<lambda>x. x\<lparr>DeletedInSnapshot := True\<rparr>))
              (\<lambda>_. bnd (gets (\<lambda>h. Path (nodes h node)))
              (\<lambda>name. set_child n name node)))))))
          | None \<Rightarrow>
              bnd (gets (\<lambda>h. Path (nodes h node)))
              (\<lambda>name. set_child n name node)))))))"

fun addNode :: "nat \<Rightarrow> ref \<Rightarrow> ref \<Rightarrow> unit M" where
  "addNode 0 n node = addNode_body (\<lambda>_ _. fail OutOfFuel) n node"
| "addNode (Suc k) n node = addNode_body (addNode k) n node"

section \<open>The stream processor\<close>

definition liftE :: "error + 'a \<Rightarrow> 'a M" where
  "liftE r = (case r of Inl e \<Rightarrow> fail e | Inr x \<Rightarrow> ret x)"

text \<open>
  \<^verbatim>\<open>ReadParam\<close> followed by the type assertion the caller makes on the value
  (\<^verbatim>\<open>.(string)\<close>, \<^verbatim>\<open>.(uint64)\<close>, \<^verbatim>\<open>.(*bytesData)\<close>); a failed assertion panics.
\<close>

definition ReadParam_string :: "commandInst \<Rightarrow> nat \<Rightarrow> (string \<times> commandInst) M" where
  "ReadParam_string command t =
     (case ReadParam command t of
        Inl e \<Rightarrow> fail e
      | Inr (v, c) \<Rightarrow> (case v of VString s \<Rightarrow> ret (s, c) | _ \<Rightarrow> fail Panic))"

definition ReadParam_uint64 :: "commandInst \<Rightarrow> nat \<Rightarrow> (64 word \<times> commandInst) M" where
  "ReadParam_uint64 command t =
     (case ReadParam command t of
        Inl e \<Rightarrow> fail e
      | Inr (v, c) \<Rightarrow> (case v of VUint64 w \<Rightarrow> ret (w, c) | _ \<Rightarrow> fail Panic))"

text \<open>\<^verbatim>\<open>bytesData.String\<close>, the rendering of \<^verbatim>\<open>%v\<close> for attribute data.\<close>

definition bytesData_String :: "byte list \<Rightarrow> bool \<Rightarrow> string" where
  "bytesData_String bytes isUTF8 =
     (if isUTF8 then ellipsis bytes 32 else ''bytes:len='' @ show_base 10 (length bytes))"

text \<open>
  \<^verbatim>\<open>time.Time.String\<close> prints in the time zone of the process, which is not part of
  the model; this stand-in prints the seconds and nanoseconds read from the stream.
\<close>

definition time_String :: "attr_val \<Rightarrow> string" where
  "time_String v =
     (case v of
        VTime sec nsec \<Rightarrow> show_base 10 (unat sec) @ ''.'' @ show_base 10 (unat nsec)
      | _ \<Rightarrow> [])"

subsection \<open>Create\<close>

definition processCreate :: "nat \<Rightarrow> Diff \<Rightarrow> string \<Rightarrow> commandInst \<Rightarrow> unit M" where
  "processCreate k d path command =
     bnd (gets (getNodeByPath d path))
     (\<lambda>node. if node \<noteq> None then fail DuplicateCreate
       else bnd
         (if OriginalType command = BTRFS_SEND_C_MKFILE then ret DiffNodeTypeFile
          else if OriginalType command = BTRFS_SEND_C_MKDIR then ret DiffNodeTypeDir
          else if OriginalType command = BTRFS_SEND_C_SYMLINK then ret DiffNodeTypeSymLink
          else if OriginalType command = BTRFS_SEND_C_MKNOD then ret DiffNodeTypeNode
          else if OriginalType command = BTRFS_SEND_C_MKFIFO then ret DiffNodeTypeFIFO
          else if OriginalType command = BTRFS_SEND_C_MKSOCK then ret DiffNodeTypeSock
          else fail Unsupported)
     (\<lambda>nodeType. bnd
         (if nodeType = DiffNodeTypeDir then mkdirp (root d) path False True
          else bnd (getNodeParentOrMkdir d path)
               (\<lambda>parent. bnd (alloc (new_DiffNode nodeType (getLastPathPart path) opCreate []
                                       None None))
               (\<lambda>node. bnd (addNode k parent node) (\<lambda>_. ret node))))
     (\<lambda>node. if OriginalType command = BTRFS_SEND_C_SYMLINK then
         bnd (liftE (ReadParam command BTRFS_SEND_A_INO))
         (\<lambda>(_, command). bnd (ReadParam_string command BTRFS_SEND_A_PATH_LINK)
         (\<lambda>(pathLink, command). bnd (gets (getNodeByPath d pathLink))
         (\<lambda>found. bnd (case found of
                         Some l \<Rightarrow> ret l
                       | None \<Rightarrow> alloc (new_DiffNode DiffNodeTypeUnknown pathLink opUnspec []
                                          None (Some [])))
         (\<lambda>linkDestination.
            upd node (\<lambda>x. x\<lparr>Relations :=
                              Relations x @ [(linkDestination, DiffNodeReasonLinkDest)]\<rparr>)))))
       else ret ())))"

subsection \<open>Modify\<close>

text \<open>
  The tail shared by the \<^verbatim>\<open>WRITE\<close> and \<^verbatim>\<open>UPDATE_EXTENT\<close> branches, which differ only in
  where \<open>dataLen\<close> comes from: coalescing with the previous write, the type upgrade, the
  change descriptor and the two transient fields.
\<close>

definition fmt_write :: "64 word \<Rightarrow> 64 word \<Rightarrow> string" where
  "fmt_write offset dataLen = ''write:offset='' @ fmt_d offset @ '':data_len='' @ fmt_d dataLen"

definition coalesces :: "DiffNode \<Rightarrow> 64 word \<Rightarrow> bool" where
  "coalesces x offset =
     (length (Changes x) > 0 \<and> HasPrefix (last (Changes x)) ''write''
      \<and> lastDataWrittenOffset x + lastDataWrittenLen x = offset)"

definition record_write :: "64 word \<Rightarrow> 64 word \<Rightarrow> DiffNode \<Rightarrow> DiffNode" where
  "record_write offset dataLen x =
     (let changes = (if coalesces x offset then butlast (Changes x) else Changes x);
          offset' = (if coalesces x offset then lastDataWrittenOffset x else offset);
          dataLen' = (if coalesces x offset then dataLen + lastDataWrittenLen x else dataLen)
      in x\<lparr>NodeType := (if NodeType x = DiffNodeTypeUnknown then DiffNodeTypeFile
                        else NodeType x),
           Changes := changes @ [fmt_write offset' dataLen'],
           lastDataWrittenOffset := offset',
           lastDataWrittenLen := dataLen'\<rparr>)"

definition add_change :: "string \<Rightarrow> DiffNode \<Rightarrow> DiffNode" where
  "add_change c x = x\<lparr>Changes := Changes x @ [c]\<rparr>"

definition processModify :: "nat \<Rightarrow> Diff \<Rightarrow> string \<Rightarrow> commandInst \<Rightarrow> unit M" where
  "processModify k d path command =
     bnd (gets (getNodeByPath d path))
     (\<lambda>found. bnd
         (case found of
            Some node \<Rightarrow> ret node
          | None \<Rightarrow>
              bnd (getNodeParentOrMkdir d path)
              (\<lambda>parent. bnd (alloc (new_DiffNode DiffNodeTypeUnknown (getLastPathPart path)
                                      opUnspec [] None (Some [])))
              (\<lambda>node. bnd (addNode k parent node) (\<lambda>_. ret node))))
     (\<lambda>node. bnd (upd node (\<lambda>x. if State x \<noteq> opCreate then x\<lparr>State := opModify\<rparr> else x))
     (\<lambda>_. if OriginalType command = BTRFS_SEND_C_WRITE then
         bnd (ReadParam_uint64 command BTRFS_SEND_A_FILE_OFFSET)
         (\<lambda>(offset, command). bnd (liftE (ReadParam command BTRFS_SEND_A_DATA))
         (\<lambda>(sentData, command).
            case sentData of
              VBytes bytes isUTF8 \<Rightarrow> upd node (record_write offset (of_nat (length bytes)))
            | _ \<Rightarrow> fail Panic))
       else if OriginalType command = BTRFS_SEND_C_UPDATE_EXTENT then
         bnd (ReadParam_uint64 command BTRFS_SEND_A_FILE_OFFSET)
         (\<lambda>(offset, command). bnd (ReadParam_uint64 command BTRFS_SEND_A_SIZE)
         (\<lambda>(size, command). upd node (record_write offset size)))
       else if OriginalType command = BTRFS_SEND_C_TRUNCATE then
         bnd (ReadParam_uint64 command BTRFS_SEND_A_SIZE)
         (\<lambda>(size, command).
            upd node (\<lambda>x. add_change (''truncate:size='' @ fmt_d size)
                            (x\<lparr>NodeType := (if NodeType x = DiffNodeTypeUnknown
                                             then DiffNodeTypeFile else NodeType x)\<rparr>)))
       else if OriginalType command = BTRFS_SEND_C_UTIMES then
         bnd (liftE (ReadParam command BTRFS_SEND_A_ATIME))
         (\<lambda>(atime, command). bnd (liftE (ReadParam command BTRFS_SEND_A_MTIME))
         (\<lambda>(mtime, command). bnd (liftE (ReadParam command BTRFS_SEND_A_CTIME))
         (\<lambda>(ctime, command).
            upd node (add_change (''utime:atime='' @ time_String atime @ '',mtime=''
                                    @ time_String mtime @ '',ctime='' @ time_String ctime)))))
       else if OriginalType command = BTRFS_SEND_C_CHMOD then
         bnd (ReadParam_uint64 command BTRFS_SEND_A_MODE)
         (\<lambda>(mode, command). upd node (add_change (''chmod:mode='' @ fmt_o mode)))
       else if OriginalType command = BTRFS_SEND_C_CHOWN then
         bnd (ReadParam_uint64 command BTRFS_SEND_A_UID)
         (\<lambda>(uid, command). bnd (ReadParam_uint64 command BTRFS_SEND_A_GID)
         (\<lambda>(gid, command).
            upd node (add_change (''chown:uid='' @ fmt_d uid @ '',gid='' @ fmt_d gid))))
       else if OriginalType command = BTRFS_SEND_C_SET_XATTR then
         bnd (ReadParam_string command BTRFS_SEND_A_XATTR_NAME)
         (\<lambda>(xattrName, command). bnd (liftE (ReadParam command BTRFS_SEND_A_XATTR_DATA))
         (\<lambda>(xattrData, command).
            case xattrData of
              VBytes bytes isUTF8 \<Rightarrow>
                upd node (add_change (''set_xattr:name='' @ xattrName @ '',data=''
                                        @ bytesData_String bytes isUTF8))
            | _ \<Rightarrow> fail Panic))
       else if OriginalType command = BTRFS_SEND_C_REMOVE_XATTR then
         bnd (ReadParam_string command BTRFS_SEND_A_XATTR_NAME)
         (\<lambda>(xattrName, command). upd node (add_change (''remove_xattr:name='' @ xattrName)))
       else fail UnhandledCommand)))"

subsection \<open>Delete\<close>

definition processDelete :: "nat \<Rightarrow> Diff \<Rightarrow> string \<Rightarrow> commandInst \<Rightarrow> unit M" where
  "processDelete k d path command =
     bnd (gets (getNodeByPath d path))
     (\<lambda>found. bnd
         (case found of
            Some node \<Rightarrow> ret node
          | None \<Rightarrow>
              bnd (alloc (new_DiffNode DiffNodeTypeUnknown (getLastPathPart path) opUnspec []
                            None (Some [])))
              (\<lambda>node. bnd (getNodeParentOrMkdir d path)
              (\<lambda>parent. bnd (addNode k parent node) (\<lambda>_. ret node))))
     (\<lambda>node. bnd (upd node (\<lambda>x. if NodeType x = DiffNodeTypeUnknown
                                   \<and> OriginalType command = BTRFS_SEND_C_RMDIR
                                then x\<lparr>NodeType := DiffNodeTypeDir\<rparr> else x))
     (\<lambda>_. bnd (upd node (\<lambda>x. x\<lparr>State := opDelete, DeletedInSnapshot := True\<rparr>))
     (\<lambda>_. bnd (gets (\<lambda>h. Parent (nodes h node)))
     (\<lambda>par. case par of
              None \<Rightarrow> fail Panic
            | Some parent \<Rightarrow>
                bnd (gets (\<lambda>h. regexNewNode_MatchString (Path (nodes h parent))))
                (\<lambda>isTemporary. if isTemporary then
                    bnd (gets (\<lambda>h. followRenameChainSrc k h parent))
                    (\<lambda>chain. case chain of
                       None \<Rightarrow> fail OutOfFuel
                     | Some renameSrc \<Rightarrow>
                         bnd (gets (\<lambda>h. child h renameSrc (Path (nodes h node))))
                         (\<lambda>inSrc. case inSrc of
                            Some nodeInSrc \<Rightarrow>
                              bnd (upd nodeInSrc (\<lambda>x. x\<lparr>DeletedInSnapshot := True\<rparr>))
                              (\<lambda>_. bnd (upd nodeInSrc
                                          (\<lambda>x. if OriginalType command = BTRFS_SEND_C_RMDIR
                                               then x\<lparr>NodeType := DiffNodeTypeDir\<rparr> else x))
                              (\<lambda>_. removeFromParent node))
                          | None \<Rightarrow> addNode k renameSrc node))
                  else ret ()))))))"

subsection \<open>Rename and link\<close>

definition processRenameOrLink ::
  "nat \<Rightarrow> Diff \<Rightarrow> string \<Rightarrow> string \<Rightarrow> commandInst \<Rightarrow> unit M" where
  "processRenameOrLink k d from to command =
     (let pathFromIsNewNode = regexNewNode_MatchString from in
      bnd (gets (getNodeByPath d from))
      (\<lambda>found. bnd
         (if found = None \<and> \<not> pathFromIsNewNode then
            bnd (alloc (new_DiffNode DiffNodeTypeUnknown (getLastPathPart from) opUnspec []
                          None (Some [])))
            (\<lambda>nodeSrc. bnd
               (if OriginalType command = BTRFS_SEND_C_RENAME then
                  bnd (getNodeParentOrMkdir d to) (\<lambda>parent. addNode k parent nodeSrc)
                else ret ())
            (\<lambda>_. ret (Some nodeSrc)))
          else ret found)
      (\<lambda>nodeSrc. bnd
         (case nodeSrc of
            None \<Rightarrow> ret (DiffNodeTypeUnknown, [], [])
          | Some src \<Rightarrow>
              bnd (gets (\<lambda>h. (NodeType (nodes h src), Relations (nodes h src),
                               children_of h src)))
              (\<lambda>(nodeType, relations, children). bnd
                 (if OriginalType command = BTRFS_SEND_C_RENAME
                  then processDelete k d from command else ret ())
              (\<lambda>_. ret (nodeType,
                        (if \<not> pathFromIsNewNode then
                           (if OriginalType command = BTRFS_SEND_C_RENAME
                            then relations @ [(src, DiffNodeReasonRenameSrc)]
                            else if OriginalType command = BTRFS_SEND_C_LINK
                            then relations @ [(src, DiffNodeReasonLinkDest)]
                            else relations)
                         else relations),
                        children))))
      (\<lambda>(nodeType, relations, children). bnd (getNodeParentOrMkdir d to)
      (\<lambda>parent. bnd (alloc (new_DiffNode nodeType (getLastPathPart to) opCreate relations None
                              (Some children)))
      (\<lambda>nodeTo. bnd (\<lambda>h. case addNode k parent nodeTo h of
                            (Inl e, h') \<Rightarrow> (Inl (if nodeSrc = None then Panic else e), h')
                          | (Inr u, h') \<Rightarrow> (Inr u, h'))
      (\<lambda>_. case nodeSrc of
             Some src \<Rightarrow>
               if OriginalType command = BTRFS_SEND_C_RENAME then
                 upd src (\<lambda>x. x\<lparr>Relations :=
                                  Relations x @ [(nodeTo, DiffNodeReasonRenameDest)]\<rparr>)
               else ret ()
           | None \<Rightarrow> ret ())))))))"

subsection \<open>The main loop\<close>

text \<open>
  What the body of the loop in \<^verbatim>\<open>ProcessBTRFSStream\<close> does after one command:
  \<^verbatim>\<open>continue\<close>, set \<^verbatim>\<open>stop\<close>, or (in the last branch of the rename case, where
  \<^verbatim>\<open>errors.Wrapf\<close> is given the \<^verbatim>\<open>nil\<close> error of the read before) return \<^verbatim>\<open>nil, nil\<close>.
\<close>

datatype loop_ctl = Continue | Stop | ReturnNil

definition processCommand :: "nat \<Rightarrow> Diff \<Rightarrow> commandInst \<Rightarrow> loop_ctl M" where
  "processCommand k d command =
     (case Type_Op command of
        opUnspec \<Rightarrow> fail Unsupported
      | opIgnore \<Rightarrow> ret Continue
      | opEnd \<Rightarrow> ret Stop
      | opRename \<Rightarrow>
          bnd (ReadParam_string command BTRFS_SEND_A_PATH)
          (\<lambda>(path, command).
             if OriginalType command = BTRFS_SEND_C_RENAME then
               bnd (ReadParam_string command BTRFS_SEND_A_PATH_TO)
               (\<lambda>(toPath, command). bnd (processRenameOrLink k d path toPath command)
               (\<lambda>_. ret Continue))
             else if OriginalType command = BTRFS_SEND_C_LINK then
               bnd (ReadParam_string command BTRFS_SEND_A_PATH_LINK)
               (\<lambda>(fromPath, command). bnd (processRenameOrLink k d fromPath path command)
               (\<lambda>_. ret Continue))
             else (case errors_Wrap None ''invalid command for rename'' of
                     None \<Rightarrow> ret ReturnNil
                   | Some e \<Rightarrow> fail e))
      | opDelete \<Rightarrow>
          bnd (ReadParam_string command BTRFS_SEND_A_PATH)
          (\<lambda>(path, command). bnd (processDelete k d path command) (\<lambda>_. ret Continue))
      | _ \<Rightarrow>
          if OriginalType command = BTRFS_SEND_C_SNAPSHOT
             \<or> OriginalType command = BTRFS_SEND_C_SUBVOL then
            bnd (liftE (ReadParam command BTRFS_SEND_A_PATH))
            (\<lambda>(path, command). bnd (liftE (ReadParam command BTRFS_SEND_A_UUID))
            (\<lambda>(uuid, command). bnd (liftE (ReadParam command BTRFS_SEND_A_CTRANSID))
            (\<lambda>(ctransid, command).
               if OriginalType command = BTRFS_SEND_C_SNAPSHOT then
                 bnd (liftE (ReadParam command BTRFS_SEND_A_CLONE_UUID))
                 (\<lambda>(cloneUUID, command).
                    bnd (liftE (ReadParam command BTRFS_SEND_A_CLONE_CTRANSID))
                 (\<lambda>(cloneCTransid, command). ret Continue))
               else ret Continue)))
          else if OriginalType command = BTRFS_SEND_C_CLONE then fail Unsupported
          else
            bnd (ReadParam_string command BTRFS_SEND_A_PATH)
            (\<lambda>(path, command).
               if OriginalType command = BTRFS_SEND_C_MKFILE
                  \<or> OriginalType command = BTRFS_SEND_C_MKDIR
                  \<or> OriginalType command = BTRFS_SEND_C_SYMLINK
                  \<or> OriginalType command = BTRFS_SEND_C_MKNOD
                  \<or> OriginalType command = BTRFS_SEND_C_MKFIFO
                  \<or> OriginalType command = BTRFS_SEND_C_MKSOCK then
                 bnd (processCreate k d path command) (\<lambda>_. ret Continue)
               else if OriginalType command = BTRFS_SEND_C_WRITE
                  \<or> OriginalType command = BTRFS_SEND_C_UPDATE_EXTENT
                  \<or> OriginalType command = BTRFS_SEND_C_TRUNCATE
                  \<or> OriginalType command = BTRFS_SEND_C_CHMOD
                  \<or> OriginalType command = BTRFS_SEND_C_CHOWN
                  \<or> OriginalType command = BTRFS_SEND_C_SET_XATTR
                  \<or> OriginalType command = BTRFS_SEND_C_REMOVE_XATTR
                  \<or> OriginalType command = BTRFS_SEND_C_UTIMES then
                 bnd (processModify k d path command) (\<lambda>_. ret Continue)
               else fail UnhandledCommand))"

text \<open>
  The loop: read a command, act on it, until \<^verbatim>\<open>END\<close>. The result is the error, or the
  returned \<^verbatim>\<open>*Diff\<close> (\<open>None\<close> for \<^verbatim>\<open>nil\<close>) with the store it points into.
\<close>

function ProcessLoop :: "nat \<Rightarrow> Diff \<Rightarrow> byte list \<Rightarrow> heap \<Rightarrow> error + (Diff \<times> heap) option" where
  "ProcessLoop k d input h =
     (case readCommand input of
        Inl e \<Rightarrow> Inl e
      | Inr (command, input') \<Rightarrow>
          (case processCommand k d command h of
             (Inl e, h') \<Rightarrow> Inl e
           | (Inr Continue, h') \<Rightarrow> ProcessLoop k d input' h'
           | (Inr Stop, h') \<Rightarrow> Inr (Some (d, h'))
           | (Inr ReturnNil, h') \<Rightarrow> Inr None))"
  by pat_completeness auto
termination
  by (relation "measure (\<lambda>(k, d, input, h). length input)")
     (auto simp: readCommand_def peekAndDiscard_def split: if_splits sum.splits)

declare ProcessLoop.simps [simp del]

definition ProcessBTRFSStream :: "nat \<Rightarrow> byte list \<Rightarrow> error + (Diff \<times> heap) option" where
  "ProcessBTRFSStream k stream =
     (case validateBTRFSStream stream of
        (Some e, input) \<Rightarrow> Inl e
      | (None, input) \<Rightarrow>
          (case alloc (new_DiffNode DiffNodeTypeDir [] opUnspec [] None (Some [])) empty_heap of
             (Inl e, h) \<Rightarrow> Inl e
           | (Inr r, h) \<Rightarrow> ProcessLoop k \<lparr>root = r\<rparr> input h))"

section \<open>The output projector\<close>

text \<open>An ignore pattern is the set of strings its regular expression matches.\<close>

type_synonym DiffIgnorePaths = "(string \<Rightarrow> bool) list"

definition Matches :: "nat \<Rightarrow> DiffIgnorePaths \<Rightarrow> heap \<Rightarrow> ref \<Rightarrow> bool option" where
  "Matches k p h f =
     (case GetChainPath k h f of
        None \<Rightarrow> None
      | Some pa \<Rightarrow> Some (list_ex (\<lambda>re. re pa) p))"

definition shouldPrintNode :: "nat \<Rightarrow> heap \<Rightarrow> ref \<Rightarrow> bool option" where
  "shouldPrintNode k h n =
     (case isBTRFSTemporaryNode k h n of
        None \<Rightarrow> None
      | Some t \<Rightarrow>
          if t then Some False
          else if State (nodes h n) = opCreate \<or> State (nodes h n) = opModify
                  \<or> State (nodes h n) = opDelete then Some True
          else Some False)"

record DiffJSONStruct =
  Added :: "ref list"
  Changed :: "ref list"
  Deleted :: "ref list"

text \<open>The callback of \<^verbatim>\<open>GetDiffStruct\<close>, applied to one node.\<close>

definition GetDiffStruct_visit ::
  "nat \<Rightarrow> DiffIgnorePaths \<Rightarrow> heap \<Rightarrow> ref \<Rightarrow> DiffJSONStruct \<Rightarrow> DiffJSONStruct option" where
  "GetDiffStruct_visit k ignorePaths h f s =
     (case Matches k ignorePaths h f of
        None \<Rightarrow> None
      | Some ignored \<Rightarrow>
          if ignored then Some s
          else (case shouldPrintNode k h f of
                  None \<Rightarrow> None
                | Some shown \<Rightarrow>
                    if \<not> shown then Some s
                    else
                      (let s = (if State (nodes h f) = opCreate then s\<lparr>Added := Added s @ [f]\<rparr>
                                else if State (nodes h f) = opDelete
                                then s\<lparr>Deleted := Deleted s @ [f]\<rparr>
                                else s\<lparr>Changed := Changed s @ [f]\<rparr>)
                       in if DeletedInSnapshot (nodes h f) \<and> State (nodes h f) \<noteq> opDelete
                          then Some (s\<lparr>Deleted := Deleted s @ [f]\<rparr>)
                          else Some s)))"

fun visit_all :: "('a \<Rightarrow> 's \<Rightarrow> 's option) \<Rightarrow> 'a list \<Rightarrow> 's \<Rightarrow> 's option" where
  "visit_all f [] s = Some s"
| "visit_all f (x # xs) s = (case f x s of None \<Rightarrow> None | Some s' \<Rightarrow> visit_all f xs s')"

definition GetDiffStruct :: "nat \<Rightarrow> Diff \<Rightarrow> DiffIgnorePaths \<Rightarrow> heap \<Rightarrow> DiffJSONStruct option" where
  "GetDiffStruct k d ignorePaths h =
     (case traverse k h (root d) of
        None \<Rightarrow> None
      | Some fs \<Rightarrow>
          visit_all (GetDiffStruct_visit k ignorePaths h) fs
            \<lparr>Added = [], Changed = [], Deleted = []\<rparr>)"

text \<open>
  The pretty output: one entry per \<^verbatim>\<open>info\<close> call after the heading, naming the node
  the line is about and whether it is the node's own record (\<^verbatim>\<open>String\<close>) or its
  deleted line (\<^verbatim>\<open>StringForDeleted\<close>). The text of the lines is not modelled.
\<close>

datatype line = Line_String ref | Line_StringForDeleted ref

definition print_visit ::
  "nat \<Rightarrow> DiffIgnorePaths \<Rightarrow> heap \<Rightarrow> ref \<Rightarrow> line list \<Rightarrow> line list option" where
  "print_visit k ignorePaths h f out =
     (case Matches k ignorePaths h f of
        None \<Rightarrow> None
      | Some ignored \<Rightarrow>
          if ignored then Some out
          else (case shouldPrintNode k h f of
                  None \<Rightarrow> None
                | Some shown \<Rightarrow>
                    (let out = (if shown then out @ [Line_String f] else out)
                     in if DeletedInSnapshot (nodes h f) \<and> State (nodes h f) \<noteq> opDelete
                        then Some (out @ [Line_StringForDeleted f])
                        else Some out)))"

definition print :: "nat \<Rightarrow> Diff \<Rightarrow> DiffIgnorePaths \<Rightarrow> heap \<Rightarrow> line list option" where
  "print k d ignorePaths h =
     (case traverse k h (root d) of
        None \<Rightarrow> None
      | Some fs \<Rightarrow> visit_all (print_visit k ignorePaths h) fs [])"

text \<open>
  The JSON document of \<^verbatim>\<open>printJSON\<close>: \<^verbatim>\<open>MarshalJSON\<close> of a relation and of a node build
  the structures below, whose paths are chain paths; the document holds the three
  buckets. (A \<^verbatim>\<open>nil\<close> slice and an empty one are both the empty list.)
\<close>

record DiffNodeRelationJSON =
  rel_path :: string
  rel_reason :: DiffNodeReason

record DiffNodeJSON =
  json_node_type :: DiffNodeType
  json_path :: string
  json_state :: operation
  json_relations :: "DiffNodeRelationJSON list"
  json_changes :: "string list"

fun those_all :: "'a option list \<Rightarrow> 'a list option" where
  "those_all [] = Some []"
| "those_all (x # xs) =
     (case x of
        None \<Rightarrow> None
      | Some y \<Rightarrow> (case those_all xs of None \<Rightarrow> None | Some ys \<Rightarrow> Some (y # ys)))"

definition DiffNodeRelation_MarshalJSON ::
  "nat \<Rightarrow> heap \<Rightarrow> DiffNodeRelation \<Rightarrow> DiffNodeRelationJSON option" where
  "DiffNodeRelation_MarshalJSON k h r =
     (case GetChainPath k h (fst r) of
        None \<Rightarrow> None
      | Some p \<Rightarrow> Some \<lparr>rel_path = p, rel_reason = snd r\<rparr>)"

definition DiffNode_MarshalJSON :: "nat \<Rightarrow> heap \<Rightarrow> ref \<Rightarrow> DiffNodeJSON option" where
  "DiffNode_MarshalJSON k h n =
     (case GetChainPath k h n of
        None \<Rightarrow> None
      | Some p \<Rightarrow>
          (case those_all (map (DiffNodeRelation_MarshalJSON k h) (Relations (nodes h n))) of
             None \<Rightarrow> None
           | Some rels \<Rightarrow>
               Some \<lparr>json_node_type = NodeType (nodes h n), json_path = p,
                     json_state = State (nodes h n), json_relations = rels,
                     json_changes = Changes (nodes h n)\<rparr>))"

record document =
  added :: "DiffNodeJSON list"
  changed :: "DiffNodeJSON list"
  deleted :: "DiffNodeJSON list"

definition printJSON :: "nat \<Rightarrow> Diff \<Rightarrow> DiffIgnorePaths \<Rightarrow> heap \<Rightarrow> document option" where
  "printJSON k d ignorePaths h =
     (case GetDiffStruct k d ignorePaths h of
        None \<Rightarrow> None
      | Some s \<Rightarrow>
          (case those_all (map (DiffNode_MarshalJSON k h) (Added s)) of
             None \<Rightarrow> None
           | Some a \<Rightarrow>
               (case those_all (map (DiffNode_MarshalJSON k h) (Changed s)) of
                  None \<Rightarrow> None
                | Some c \<Rightarrow>
                    (case those_all (map (DiffNode_MarshalJSON k h) (Deleted s)) of
                       None \<Rightarrow> None
                     | Some dl \<Rightarrow> Some \<lparr>added = a, changed = c, deleted = dl\<rparr>))))"

text \<open>Every path string of a document: of each node and of each of its relations.\<close>

definition emitted_paths :: "document \<Rightarrow> string list" where
  "emitted_paths doc =
     concat (map (\<lambda>j. json_path j # map rel_path (json_relations j))
               (added doc @ changed doc @ deleted doc))"

section \<open>Writing streams down\<close>

text \<open>
  The wire format of section 6, used to write the concrete streams of the examples
  below: the header, a command record and an attribute record.
\<close>

definition u16_le :: "nat \<Rightarrow> byte list" where
  "u16_le v = [char_of (v mod 256), char_of (v div 256 mod 256)]"

definition u32_le :: "nat \<Rightarrow> byte list" where
  "u32_le v = [char_of (v mod 256), char_of (v div 256 mod 256),
               char_of (v div 65536 mod 256), char_of (v div 16777216 mod 256)]"

definition u64_le :: "nat \<Rightarrow> byte list" where
  "u64_le v = u32_le (v mod 4294967296) @ u32_le (v div 4294967296)"

definition wire_header :: "string \<Rightarrow> nat \<Rightarrow> byte list" where
  "wire_header magic version = magic @ [CHR 0x00] @ u32_le version"

definition wire_attr :: "nat \<Rightarrow> byte list \<Rightarrow> byte list" where
  "wire_attr t v = u16_le t @ u16_le (length v) @ v"

definition wire_cmd :: "nat \<Rightarrow> byte list \<Rightarrow> byte list" where
  "wire_cmd t attrs = u32_le (length attrs) @ u16_le t @ u32_le 0 @ attrs"

text \<open>
  A visited node passes both filters of the projector: no ignore pattern matches its
  chain path and \<^verbatim>\<open>shouldPrintNode\<close> accepts it.
\<close>

definition shown :: "nat \<Rightarrow> DiffIgnorePaths \<Rightarrow> heap \<Rightarrow> ref \<Rightarrow> bool" where
  "shown k ign h f = (Matches k ign h f = Some False \<and> shouldPrintNode k h f = Some True)"

section \<open>Properties of change sequences\<close>

text \<open>
  A change sequence has no two adjacent write descriptors that are contiguous in offset:
  none that read \<open>write:offset=a:data_len=b\<close> and then \<open>write:offset=a+b:...\<close> (the sum
  taken as the source takes it, in 64 bits).
\<close>

definition no_contiguous_writes :: "string list \<Rightarrow> bool" where
  "no_contiguous_writes cs =
     (\<nexists>i o1 l1 o2 l2. Suc i < length cs \<and> cs ! i = fmt_write o1 l1
        \<and> cs ! Suc i = fmt_write o2 l2 \<and> o1 + l1 = o2)"

text \<open>
  The transient fields of a node describe its last change whenever that is a write.
\<close>

definition writes_tracked :: "DiffNode \<Rightarrow> bool" where
  "writes_tracked x =
     (no_contiguous_writes (Changes x)
      \<and> (length (Changes x) > 0 \<and> HasPrefix (last (Changes x)) ''write'' \<longrightarrow>
           last (Changes x) = fmt_write (lastDataWrittenOffset x) (lastDataWrittenLen x)))"

text \<open>The number a string of decimal digits stands for.\<close>

definition dec_val :: "string \<Rightarrow> nat" where
  "dec_val s = foldl (\<lambda>a c. 10 * a + (of_char c - 48)) 0 s"

text \<open>The invariant of the store, and the functions that keep it.\<close>

definition all_tracked :: "heap \<Rightarrow> bool" where
  "all_tracked h = (\<forall>a. writes_tracked (nodes h a))"

definition keeps :: "'a M \<Rightarrow> bool" where
  "keeps m = (\<forall>h. all_tracked h \<longrightarrow> all_tracked (snd (m h)))"

text \<open>The state update every modify command begins with.\<close>

definition touch :: "DiffNode \<Rightarrow> DiffNode" where
  "touch x = (if State x \<noteq> opCreate then x\<lparr>State := opModify\<rparr> else x)"

section \<open>Properties of the tree operations\<close>








section \<open>Example streams\<close>

text \<open>
  Streams whose magic is wrong (with and without a version field behind it) and one whose
  version is 2, each followed by \<^verbatim>\<open>END\<close>.
\<close>

definition bad_magic_stream :: "byte list" where
  "bad_magic_stream = wire_header ''btrfs-strean'' 1 @ wire_cmd BTRFS_SEND_C_END []"

definition bad_magic_short_stream :: "byte list" where
  "bad_magic_short_stream = ''btrfs-strean'' @ [CHR 0x00] @ wire_cmd BTRFS_SEND_C_END []"

definition bad_version_stream :: "byte list" where
  "bad_version_stream = wire_header ''btrfs-stream'' 2 @ wire_cmd BTRFS_SEND_C_END []"

text \<open>\<^verbatim>\<open>utimes f\<close>.\<close>

definition utimes_command :: "byte list" where
  "utimes_command =
     wire_cmd BTRFS_SEND_C_UTIMES
       (wire_attr BTRFS_SEND_A_PATH ''f''
        @ wire_attr BTRFS_SEND_A_ATIME (u64_le 1 @ u32_le 0)
        @ wire_attr BTRFS_SEND_A_MTIME (u64_le 2 @ u32_le 0)
        @ wire_attr BTRFS_SEND_A_CTIME (u64_le 3 @ u32_le 0))"

definition utimes_stream :: "byte list" where
  "utimes_stream =
     wire_header ''btrfs-stream'' 1 @ utimes_command @ wire_cmd BTRFS_SEND_C_END []"

text \<open>\<^verbatim>\<open>rename bar -> o1-2-3; truncate bar/a/x; rmdir o1-2-3/a\<close>.\<close>

definition shadow_stream :: "byte list" where
  "shadow_stream =
     wire_header ''btrfs-stream'' 1
     @ wire_cmd BTRFS_SEND_C_RENAME
         (wire_attr BTRFS_SEND_A_PATH ''bar'' @ wire_attr BTRFS_SEND_A_PATH_TO ''o1-2-3'')
     @ wire_cmd BTRFS_SEND_C_TRUNCATE
         (wire_attr BTRFS_SEND_A_PATH ''bar/a/x'' @ wire_attr BTRFS_SEND_A_SIZE (u64_le 0))
     @ wire_cmd BTRFS_SEND_C_RMDIR (wire_attr BTRFS_SEND_A_PATH ''o1-2-3/a'')
     @ wire_cmd BTRFS_SEND_C_END []"

text \<open>\<^verbatim>\<open>unlink p; link p -> x\<close>: a node that is created over a deleted one.\<close>

definition relink_stream :: "byte list" where
  "relink_stream =
     wire_header ''btrfs-stream'' 1
     @ wire_cmd BTRFS_SEND_C_UNLINK (wire_attr BTRFS_SEND_A_PATH ''p'')
     @ wire_cmd BTRFS_SEND_C_LINK
         (wire_attr BTRFS_SEND_A_PATH ''p'' @ wire_attr BTRFS_SEND_A_PATH_LINK ''x'')
     @ wire_cmd BTRFS_SEND_C_END []"

text \<open>\<^verbatim>\<open>unlink a/o1-2-3/f; unlink a/b/g\<close>.\<close>

definition nested_placeholder_stream :: "byte list" where
  "nested_placeholder_stream =
     wire_header ''btrfs-stream'' 1
     @ wire_cmd BTRFS_SEND_C_UNLINK (wire_attr BTRFS_SEND_A_PATH ''a/o1-2-3/f'')
     @ wire_cmd BTRFS_SEND_C_UNLINK (wire_attr BTRFS_SEND_A_PATH ''a/b/g'')
     @ wire_cmd BTRFS_SEND_C_END []"

text \<open>\<^verbatim>\<open>mkfile d/f; rename d -> e\<close>.\<close>

definition rename_dir_stream :: "byte list" where
  "rename_dir_stream =
     wire_header ''btrfs-stream'' 1
     @ wire_cmd BTRFS_SEND_C_MKFILE (wire_attr BTRFS_SEND_A_PATH ''d/f'')
     @ wire_cmd BTRFS_SEND_C_RENAME
         (wire_attr BTRFS_SEND_A_PATH ''d'' @ wire_attr BTRFS_SEND_A_PATH_TO ''e'')
     @ wire_cmd BTRFS_SEND_C_END []"

text \<open>\<^verbatim>\<open>symlink lnk -> file\<close>, the target being relative and not in the tree.\<close>

definition symlink_stream :: "byte list" where
  "symlink_stream =
     wire_header ''btrfs-stream'' 1
     @ wire_cmd BTRFS_SEND_C_SYMLINK
         (wire_attr BTRFS_SEND_A_PATH ''lnk'' @ wire_attr BTRFS_SEND_A_INO (u64_le 257)
          @ wire_attr BTRFS_SEND_A_PATH_LINK ''file'')
     @ wire_cmd BTRFS_SEND_C_END []"

text \<open>\<^verbatim>\<open>unlink photo1-2-3; link photo1-2-3 -> x\<close>.\<close>

definition photo_stream :: "byte list" where
  "photo_stream =
     wire_header ''btrfs-stream'' 1
     @ wire_cmd BTRFS_SEND_C_UNLINK (wire_attr BTRFS_SEND_A_PATH ''photo1-2-3'')
     @ wire_cmd BTRFS_SEND_C_LINK
         (wire_attr BTRFS_SEND_A_PATH ''photo1-2-3'' @ wire_attr BTRFS_SEND_A_PATH_LINK ''x'')
     @ wire_cmd BTRFS_SEND_C_END []"

text \<open>
  Writes to \<^verbatim>\<open>f\<close>: two that are contiguous, an extent elsewhere, a \<^verbatim>\<open>chmod\<close>, and an
  extent that continues the last one.
\<close>

definition write_stream :: "byte list" where
  "write_stream =
     wire_header ''btrfs-stream'' 1
     @ wire_cmd BTRFS_SEND_C_WRITE
         (wire_attr BTRFS_SEND_A_PATH ''f'' @ wire_attr BTRFS_SEND_A_FILE_OFFSET (u64_le 0)
          @ wire_attr BTRFS_SEND_A_DATA ''abcd'')
     @ wire_cmd BTRFS_SEND_C_WRITE
         (wire_attr BTRFS_SEND_A_PATH ''f'' @ wire_attr BTRFS_SEND_A_FILE_OFFSET (u64_le 4)
          @ wire_attr BTRFS_SEND_A_DATA ''efg'')
     @ wire_cmd BTRFS_SEND_C_UPDATE_EXTENT
         (wire_attr BTRFS_SEND_A_PATH ''f'' @ wire_attr BTRFS_SEND_A_FILE_OFFSET (u64_le 100)
          @ wire_attr BTRFS_SEND_A_SIZE (u64_le 50))
     @ wire_cmd BTRFS_SEND_C_CHMOD
         (wire_attr BTRFS_SEND_A_PATH ''f'' @ wire_attr BTRFS_SEND_A_MODE (u64_le 420))
     @ wire_cmd BTRFS_SEND_C_UPDATE_EXTENT
         (wire_attr BTRFS_SEND_A_PATH ''f'' @ wire_attr BTRFS_SEND_A_FILE_OFFSET (u64_le 150)
          @ wire_attr BTRFS_SEND_A_SIZE (u64_le 8))
     @ wire_cmd BTRFS_SEND_C_END []"

text \<open>A write to \<^verbatim>\<open>f\<close> that continues the last extent of \<open>write_stream\<close>.\<close>

definition next_write :: "byte list" where
  "next_write =
     wire_cmd BTRFS_SEND_C_WRITE
       (wire_attr BTRFS_SEND_A_PATH ''f'' @ wire_attr BTRFS_SEND_A_FILE_OFFSET (u64_le 158)
        @ wire_attr BTRFS_SEND_A_DATA ''xy'')"

text \<open>\<^verbatim>\<open>mkfile o1-2-3/X/c; rename o1-2-3/X -> Y\<close>.\<close>

definition orphan_dir_stream :: "byte list" where
  "orphan_dir_stream =
     wire_header ''btrfs-stream'' 1
     @ wire_cmd BTRFS_SEND_C_MKFILE (wire_attr BTRFS_SEND_A_PATH ''o1-2-3/X/c'')
     @ wire_cmd BTRFS_SEND_C_RENAME
         (wire_attr BTRFS_SEND_A_PATH ''o1-2-3/X'' @ wire_attr BTRFS_SEND_A_PATH_TO ''Y'')
     @ wire_cmd BTRFS_SEND_C_END []"

text \<open>\<^verbatim>\<open>mkfile x/f; unlink d/f; rmdir d\<close>, and the same followed by \<^verbatim>\<open>rename x -> d\<close>.\<close>

definition unlinked_dir_stream :: "byte list" where
  "unlinked_dir_stream =
     wire_header ''btrfs-stream'' 1
     @ wire_cmd BTRFS_SEND_C_MKFILE (wire_attr BTRFS_SEND_A_PATH ''x/f'')
     @ wire_cmd BTRFS_SEND_C_UNLINK (wire_attr BTRFS_SEND_A_PATH ''d/f'')
     @ wire_cmd BTRFS_SEND_C_RMDIR (wire_attr BTRFS_SEND_A_PATH ''d'')
     @ wire_cmd BTRFS_SEND_C_END []"

definition clash_stream :: "byte list" where
  "clash_stream =
     wire_header ''btrfs-stream'' 1
     @ wire_cmd BTRFS_SEND_C_MKFILE (wire_attr BTRFS_SEND_A_PATH ''x/f'')
     @ wire_cmd BTRFS_SEND_C_UNLINK (wire_attr BTRFS_SEND_A_PATH ''d/f'')
     @ wire_cmd BTRFS_SEND_C_RMDIR (wire_attr BTRFS_SEND_A_PATH ''d'')
     @ wire_cmd BTRFS_SEND_C_RENAME
         (wire_attr BTRFS_SEND_A_PATH ''x'' @ wire_attr BTRFS_SEND_A_PATH_TO ''d'')
     @ wire_cmd BTRFS_SEND_C_END []"

text \<open>The tree a run ends with (the empty store when the run fails).\<close>

definition final_heap :: "nat \<Rightarrow> byte list \<Rightarrow> heap" where
  "final_heap k stream =
     (case ProcessBTRFSStream k stream of
        Inr (Some (d, h)) \<Rightarrow> h
      | _ \<Rightarrow> empty_heap)"

text \<open>
  The tree after \<^verbatim>\<open>mkfile x/f; unlink d/f; rmdir d\<close> with a new node \<^verbatim>\<open>d\<close> beside it, as the
  rename handler makes one before it calls \<^verbatim>\<open>addNode\<close>: with an empty children map, and
  with a children map that holds the \<^verbatim>\<open>f\<close> of \<^verbatim>\<open>x\<close>.
\<close>

definition merge_heap :: heap where
  "merge_heap =
     snd (alloc (new_DiffNode DiffNodeTypeDir ''d'' opCreate [] None (Some []))
            (final_heap 4 unlinked_dir_stream))"

definition clash_heap :: heap where
  "clash_heap =
     snd (alloc (new_DiffNode DiffNodeTypeDir ''d'' opCreate [] None (Some [(''f'', 2)]))
            (final_heap 4 unlinked_dir_stream))"

section \<open>Evaluation rules\<close>

lemmas cmd_consts =
  BTRFS_SEND_C_UNSPEC_def BTRFS_SEND_C_SUBVOL_def BTRFS_SEND_C_SNAPSHOT_def
  BTRFS_SEND_C_MKFILE_def BTRFS_SEND_C_MKDIR_def BTRFS_SEND_C_MKNOD_def
  BTRFS_SEND_C_MKFIFO_def BTRFS_SEND_C_MKSOCK_def BTRFS_SEND_C_SYMLINK_def
  BTRFS_SEND_C_RENAME_def BTRFS_SEND_C_LINK_def BTRFS_SEND_C_UNLINK_def
  BTRFS_SEND_C_RMDIR_def BTRFS_SEND_C_SET_XATTR_def BTRFS_SEND_C_REMOVE_XATTR_def
  BTRFS_SEND_C_WRITE_def BTRFS_SEND_C_CLONE_def BTRFS_SEND_C_TRUNCATE_def
  BTRFS_SEND_C_CHMOD_def BTRFS_SEND_C_CHOWN_def BTRFS_SEND_C_UTIMES_def
  BTRFS_SEND_C_END_def BTRFS_SEND_C_UPDATE_EXTENT_def BTRFS_SEND_C_FALLOCATE_def
  BTRFS_SEND_C_FILEATTR_def BTRFS_SEND_C_ENCODED_WRITE_def BTRFS_SEND_C_ENABLE_VERITY_def
  BTRFS_SEND_C_MAX_def BTRFS_SEND_C_MAX_PLUS_ONE_def

lemmas attr_consts =
  BTRFS_SEND_A_UNSPEC_def BTRFS_SEND_A_UUID_def BTRFS_SEND_A_CTRANSID_def
  BTRFS_SEND_A_INO_def BTRFS_SEND_A_SIZE_def BTRFS_SEND_A_MODE_def BTRFS_SEND_A_UID_def
  BTRFS_SEND_A_GID_def BTRFS_SEND_A_RDEV_def BTRFS_SEND_A_CTIME_def BTRFS_SEND_A_MTIME_def
  BTRFS_SEND_A_ATIME_def BTRFS_SEND_A_OTIME_def BTRFS_SEND_A_XATTR_NAME_def
  BTRFS_SEND_A_XATTR_DATA_def BTRFS_SEND_A_PATH_def BTRFS_SEND_A_PATH_TO_def
  BTRFS_SEND_A_PATH_LINK_def BTRFS_SEND_A_FILE_OFFSET_def BTRFS_SEND_A_DATA_def
  BTRFS_SEND_A_CLONE_UUID_def BTRFS_SEND_A_CLONE_CTRANSID_def BTRFS_SEND_A_CLONE_PATH_def
  BTRFS_SEND_A_CLONE_OFFSET_def BTRFS_SEND_A_CLONE_LEN_def BTRFS_SEND_A_MAX_V1_PLUS_ONE_def

lemmas wire_defs =
  wire_header_def wire_cmd_def wire_attr_def u16_le_def u32_le_def u64_le_def

lemmas byte_defs =
  readCommand_def ReadParam_def peekAndDiscard_def Uint16_def Uint32_def Uint64_def le_nat_def
  ReadString_NUL_def validateBTRFSStream_def BTRFS_SEND_STREAM_MAGIC_def errors_Wrap_def

lemmas monad_defs = bnd_def ret_def fail_def gets_def upd_def alloc_def liftE_def

lemmas tree_defs =
  children_of_def child_def set_child_def path_entries_def getNodeByPath_def
  getLastPathPart_def findRelation_def mkdirp_def getNodeParentOrMkdir_def deleteNode_def
  removeFromParent_def addNode_body_def new_DiffNode_def empty_heap_def is_digit_def
  match_here_def TrimLeft_slash_def

lemmas proc_defs =
  ReadParam_string_def ReadParam_uint64_def processCreate_def processModify_def
  processDelete_def processRenameOrLink_def processCommand_def ProcessBTRFSStream_def
  Type_Op_def commandsDefs_def attrDefs_def attrConverterPath_def attrConverterPathLink_def
  attrConverterUint64_def attrConverterBytes_def attrConverterString_def
  attrConverterTime_def record_write_def coalesces_def add_change_def HasPrefix_def
  fmt_write_def fmt_d_def fmt_o_def show_base.simps digit_char_def

lemmas out_defs =
  DiffNodeRelation_MarshalJSON_def DiffNode_MarshalJSON_def printJSON_def emitted_paths_def
  Matches_def shouldPrintNode_def isBTRFSTemporaryNode_def GetDiffStruct_visit_def
  GetDiffStruct_def print_visit_def print_def traverse_def

lemma addNode_numeral:
  "addNode (numeral n) x y = addNode_body (addNode (pred_numeral n)) x y"
  by (simp add: numeral_eq_Suc)

lemma followRenameChainSrc_numeral:
  "followRenameChainSrc (numeral n) h x =
     (case findRelation h x DiffNodeReasonRenameSrc of
        Some rel \<Rightarrow> followRenameChainSrc (pred_numeral n) h (fst rel)
      | None \<Rightarrow> Some x)"
  by (simp add: numeral_eq_Suc)

lemma GetChainPath_numeral:
  "GetChainPath (numeral n) h x =
     (case Parent (nodes h x) of
        Some p \<Rightarrow>
          (case GetChainPath (pred_numeral n) h p of
             None \<Rightarrow> None
           | Some pp \<Rightarrow> Some (pp @ ''/'' @ Path (nodes h x)))
      | None \<Rightarrow> Some (Path (nodes h x)))"
  by (simp add: numeral_eq_Suc)

lemma DiffNode_root_numeral:
  "DiffNode_root (numeral n) h x =
     (case Parent (nodes h x) of
        Some p \<Rightarrow> DiffNode_root (pred_numeral n) h p
      | None \<Rightarrow> Some x)"
  by (simp add: numeral_eq_Suc)

lemma traverse_list_numeral:
  "traverse_list (numeral n) h (v # vs) =
     (case traverse_list (pred_numeral n) h (map snd (children_of h v)) of
        None \<Rightarrow> None
      | Some sub \<Rightarrow>
          (case traverse_list (numeral n) h vs of
             None \<Rightarrow> None
           | Some rest \<Rightarrow> Some (v # sub @ rest)))"
  unfolding numeral_eq_Suc by (rule traverse_list.simps)

lemmas stream_defs =
  bad_magic_stream_def bad_magic_short_stream_def bad_version_stream_def utimes_command_def utimes_stream_def
  shadow_stream_def relink_stream_def nested_placeholder_stream_def rename_dir_stream_def
  symlink_stream_def photo_stream_def write_stream_def final_heap_def next_write_def
  orphan_dir_stream_def unlinked_dir_stream_def clash_stream_def merge_heap_def clash_heap_def

lemmas exec =
  stream_defs wire_defs byte_defs monad_defs tree_defs proc_defs cmd_consts attr_consts
  ProcessLoop.simps addNode_numeral followRenameChainSrc_numeral Let_def

lemmas exec_out =
  out_defs GetChainPath_numeral DiffNode_root_numeral traverse_list_numeral

section \<open>Attribute decoding\<close>








section \<open>Stream validation\<close>

text \<open>
  Whatever the input, \<^verbatim>\<open>validateBTRFSStream\<close> returns no error but that of a short read:
  at the magic and at the version check it wraps a \<^verbatim>\<open>nil\<close> error, and the wrapper
  returns \<^verbatim>\<open>nil\<close>.
\<close>

lemma validateBTRFSStream_only_short_read:
  "fst (validateBTRFSStream input) = None \<or> fst (validateBTRFSStream input) = Some ShortRead"
  by (auto simp: validateBTRFSStream_def ReadString_NUL_def peekAndDiscard_def Uint32_def
        errors_Wrap_def Let_def split: sum.splits list.splits prod.splits if_splits)

text \<open>
  Claim C1 says that a header other than \<^verbatim>\<open>btrfs-stream\<close>, and a version other than 1,
  make validation return an error before any command is decoded. The code does not.
  With the magic \<^verbatim>\<open>btrfs-strean\<close> validation returns \<^verbatim>\<open>nil\<close> right after the header
  without looking at the version: when \<^verbatim>\<open>END\<close> follows the header the run succeeds with
  the empty tree, and when a version field follows, the command decoder reads it as the
  start of a command. With version 2 validation returns \<^verbatim>\<open>nil\<close>, \<^verbatim>\<open>END\<close> is decoded,
  and the run succeeds with the empty tree.
\<close>

theorem bad_header_accepted:
  "validateBTRFSStream bad_magic_short_stream = (None, wire_cmd BTRFS_SEND_C_END [])
   \<and> (case ProcessBTRFSStream 3 bad_magic_short_stream of
         Inr (Some (d, h)) \<Rightarrow> children_of h (root d) = []
       | _ \<Rightarrow> False)
   \<and> validateBTRFSStream bad_magic_stream = (None, u32_le 1 @ wire_cmd BTRFS_SEND_C_END [])
   \<and> ProcessBTRFSStream 3 bad_magic_stream = Inl Unsupported
   \<and> validateBTRFSStream bad_version_stream = (None, wire_cmd BTRFS_SEND_C_END [])
   \<and> (case ProcessBTRFSStream 3 bad_version_stream of
         Inr (Some (d, h)) \<Rightarrow> children_of h (root d) = []
       | _ \<Rightarrow> False)"
  by (simp add: exec)

section \<open>UTIMES\<close>

lemma Type_Op_UTIMES:
  "OriginalType command = BTRFS_SEND_C_UTIMES \<Longrightarrow> Type_Op command = opIgnore"
  by (simp add: Type_Op_def commandsDefs_def cmd_consts)

text \<open>
  Claim C2, as amended. The command table maps \<^verbatim>\<open>UTIMES\<close> to the operation \<^verbatim>\<open>Ignore\<close>, so
  for every \<^verbatim>\<open>UTIMES\<close> command the loop goes on to the next command at once: no attribute
  is read, the tree is unchanged, and the run is the run on the rest of the stream.
\<close>

theorem utimes_ignored:
  assumes "readCommand input = Inr (command, input')"
      and "OriginalType command = BTRFS_SEND_C_UTIMES"
  shows "processCommand k d command h = (Inr Continue, h)
       \<and> ProcessLoop k d input h = ProcessLoop k d input' h"
  using assms
  by (simp add: processCommand_def Type_Op_UTIMES ret_def ProcessLoop.simps[of k d input h])

theorem utimes_ignored_witness:
  "readCommand (utimes_command @ wire_cmd BTRFS_SEND_C_END [])
     = Inr (\<lparr>OriginalType = 20, data = drop 10 utimes_command\<rparr>, wire_cmd BTRFS_SEND_C_END [])
   \<and> processCommand 3 \<lparr>root = 0\<rparr> \<lparr>OriginalType = 20, data = drop 10 utimes_command\<rparr> empty_heap
     = (Inr Continue, empty_heap)
   \<and> ProcessLoop 3 \<lparr>root = 0\<rparr> (utimes_command @ wire_cmd BTRFS_SEND_C_END []) empty_heap
     = ProcessLoop 3 \<lparr>root = 0\<rparr> (wire_cmd BTRFS_SEND_C_END []) empty_heap"
proof -
  have rd: "readCommand (utimes_command @ wire_cmd BTRFS_SEND_C_END [])
     = Inr (\<lparr>OriginalType = 20, data = drop 10 utimes_command\<rparr>, wire_cmd BTRFS_SEND_C_END [])"
    by (simp add: utimes_command_def wire_defs byte_defs cmd_consts attr_consts)
  have ty: "OriginalType \<lparr>OriginalType = 20, data = drop 10 utimes_command\<rparr>
              = BTRFS_SEND_C_UTIMES"
    by (simp add: cmd_consts)
  show ?thesis
    using rd utimes_ignored [OF rd ty, of 3 "\<lparr>root = 0\<rparr>" empty_heap] by simp
qed

text \<open>
  Claim C2 as stated fails: after the stream \<^verbatim>\<open>utimes f\<close> there is no node at \<^verbatim>\<open>f\<close>; the
  tree is the root alone.
\<close>

theorem utimes_not_modify_counterexample:
  "(case ProcessBTRFSStream 3 utimes_stream of
      Inr (Some (d, h)) \<Rightarrow>
        getNodeByPath d ''f'' h = None \<and> children_of h (root d) = [] \<and> nxt h = 1
    | _ \<Rightarrow> False)"
  by (simp add: exec)

section \<open>Deleting under a directory with a placeholder-like name\<close>

text \<open>
  Claim C4 says that the reparenting step of \<^verbatim>\<open>processDelete\<close> is taken only when the
  parent of the deleted node is a temporary node, that is a child of the root with a
  matching name, and that under any other parent the node stays where it is. The code
  tests the parent's name alone. After \<^verbatim>\<open>unlink a/o1-2-3/f\<close> the parent \<^verbatim>\<open>a/o1-2-3\<close> is
  not a temporary node, yet the step is taken: the rename chain of the parent ends at
  the parent itself, the node is found there as its own namesake and removed, and the
  deletion is in no bucket. After \<^verbatim>\<open>unlink a/b/g\<close> the node stays under \<^verbatim>\<open>a/b\<close>.
\<close>

theorem delete_under_nested_placeholder:
  "(case ProcessBTRFSStream 4 nested_placeholder_stream of
      Inr (Some (d, h)) \<Rightarrow>
        getNodeByPath d ''a'' h = Some 2
        \<and> getNodeByPath d ''a/o1-2-3'' h = Some 3
        \<and> Parent (nodes h 3) = Some 2 \<and> Parent (nodes h 2) = Some (root d)
        \<and> isBTRFSTemporaryNode 4 h 3 = Some False
        \<and> getNodeByPath d ''a/o1-2-3/f'' h = None
        \<and> children_of h 3 = []
        \<and> Parent (nodes h 1) = None \<and> Path (nodes h 1) = ''f''
        \<and> getNodeByPath d ''a/b/g'' h = Some 4
        \<and> Parent (nodes h 4) = Some 5 \<and> State (nodes h 4) = opDelete
        \<and> GetDiffStruct 4 d [] h = Some \<lparr>Added = [], Changed = [], Deleted = [4]\<rparr>
    | _ \<Rightarrow> False)"
  by (simp add: exec exec_out)

section \<open>Tree coherence\<close>

text \<open>
  Claim C5 says that after a successful run every entry of a children map points to a
  node whose parent is the owner of the map. The code breaks this when it renames a
  directory that has children in the tree: after \<^verbatim>\<open>mkfile d/f; rename d -> e\<close> the
  children map of \<^verbatim>\<open>e\<close> holds \<^verbatim>\<open>f\<close>, whose parent is still \<^verbatim>\<open>d\<close>; the chain path of the
  node reached as \<^verbatim>\<open>e/f\<close> is \<^verbatim>\<open>/d/f\<close>, and the node is in the added bucket twice.
\<close>

theorem rename_breaks_coherence:
  "(case ProcessBTRFSStream 4 rename_dir_stream of
      Inr (Some (d, h)) \<Rightarrow>
        getNodeByPath d ''d'' h = Some 1
        \<and> getNodeByPath d ''e'' h = Some 3
        \<and> child h 3 ''f'' = Some 2
        \<and> Path (nodes h 2) = ''f''
        \<and> Parent (nodes h 2) = Some 1
        \<and> GetChainPath 4 h 2 = Some ''/d/f''
        \<and> GetDiffStruct 4 d [] h = Some \<lparr>Added = [2, 3, 2], Changed = [], Deleted = [1]\<rparr>
    | _ \<Rightarrow> False)"
  by (simp add: exec exec_out)

section \<open>The buckets\<close>

text \<open>
  What the two projections hold after a traversal: a visited node is in the added,
  changed or deleted bucket exactly when it passes the filters and its state, or its
  \<^verbatim>\<open>DeletedInSnapshot\<close> flag, says so; the pretty output has its record under the same
  filters, and its deleted line whenever it is not ignored, flagged and not deleted.
\<close>

lemma GetDiffStruct_visit_sets:
  assumes "GetDiffStruct_visit k ign h f s = Some s'"
  shows "set (Added s') = set (Added s) \<union> {x. x = f \<and> shown k ign h f \<and> State (nodes h f) = opCreate}"
    and "set (Changed s') = set (Changed s) \<union> {x. x = f \<and> shown k ign h f
            \<and> State (nodes h f) \<noteq> opCreate \<and> State (nodes h f) \<noteq> opDelete}"
    and "set (Deleted s') = set (Deleted s) \<union> {x. x = f \<and> shown k ign h f
            \<and> (State (nodes h f) = opDelete \<or> DeletedInSnapshot (nodes h f))}"
  using assms
  by (auto simp: GetDiffStruct_visit_def shown_def Let_def split: option.splits if_splits)

lemma visit_all_GetDiffStruct_sets:
  assumes "visit_all (GetDiffStruct_visit k ign h) fs s = Some s'"
  shows "set (Added s') = set (Added s) \<union> {f \<in> set fs. shown k ign h f \<and> State (nodes h f) = opCreate}
       \<and> set (Changed s') = set (Changed s) \<union> {f \<in> set fs. shown k ign h f
            \<and> State (nodes h f) \<noteq> opCreate \<and> State (nodes h f) \<noteq> opDelete}
       \<and> set (Deleted s') = set (Deleted s) \<union> {f \<in> set fs. shown k ign h f
            \<and> (State (nodes h f) = opDelete \<or> DeletedInSnapshot (nodes h f))}"
  using assms
proof (induction fs arbitrary: s)
  case Nil
  then show ?case by simp
next
  case (Cons f fs)
  from Cons.prems obtain s1 where
    s1: "GetDiffStruct_visit k ign h f s = Some s1" and
    rest: "visit_all (GetDiffStruct_visit k ign h) fs s1 = Some s'"
    by (auto split: option.splits)
  show ?case
    using Cons.IH[OF rest] GetDiffStruct_visit_sets[OF s1] by auto
qed

lemma print_visit_sets:
  assumes "print_visit k ign h f out = Some out'"
  shows "set out' = set out
           \<union> {l. l = Line_String f \<and> shown k ign h f}
           \<union> {l. l = Line_StringForDeleted f \<and> Matches k ign h f = Some False
                  \<and> DeletedInSnapshot (nodes h f) \<and> State (nodes h f) \<noteq> opDelete}"
  using assms
  by (auto simp: print_visit_def shown_def Let_def split: option.splits if_splits)

lemma visit_all_print_sets:
  assumes "visit_all (print_visit k ign h) fs out = Some out'"
  shows "set out' = set out
           \<union> {Line_String f | f. f \<in> set fs \<and> shown k ign h f}
           \<union> {Line_StringForDeleted f | f. f \<in> set fs \<and> Matches k ign h f = Some False
                  \<and> DeletedInSnapshot (nodes h f) \<and> State (nodes h f) \<noteq> opDelete}"
  using assms
proof (induction fs arbitrary: out)
  case Nil
  then show ?case by simp
next
  case (Cons f fs)
  from Cons.prems obtain o1 where
    o1: "print_visit k ign h f out = Some o1" and
    rest: "visit_all (print_visit k ign h) fs o1 = Some out'"
    by (auto split: option.splits)
  show ?case
    using Cons.IH[OF rest] print_visit_sets[OF o1] by auto
qed


text \<open>
  Where the shadow emit takes place: a visited node that survives the ignore filter and
  the temporary filter, with \<^verbatim>\<open>deleted_in_snapshot\<close> set, is in the deleted bucket in
  addition to the added bucket when its state is Created, and in addition to the changed
  bucket when its state is Modified; with any other state but Deleted it is in no bucket.
\<close>

lemma shadow_emit_of_shown:
  assumes "GetDiffStruct k d ign h = Some s"
      and "traverse k h (root d) = Some fs"
      and "f \<in> set fs"
      and "Matches k ign h f = Some False"
      and "isBTRFSTemporaryNode k h f = Some False"
      and "DeletedInSnapshot (nodes h f)"
      and "State (nodes h f) \<noteq> opDelete"
  shows "(State (nodes h f) = opCreate \<longrightarrow> f \<in> set (Added s) \<and> f \<in> set (Deleted s))
       \<and> (State (nodes h f) = opModify \<longrightarrow> f \<in> set (Changed s) \<and> f \<in> set (Deleted s))
       \<and> (State (nodes h f) \<noteq> opCreate \<and> State (nodes h f) \<noteq> opModify \<longrightarrow>
            f \<notin> set (Added s) \<and> f \<notin> set (Changed s) \<and> f \<notin> set (Deleted s))"
proof -
  from assms(1,2) have
    v: "visit_all (GetDiffStruct_visit k ign h) fs \<lparr>Added = [], Changed = [], Deleted = []\<rparr> = Some s"
    by (simp add: GetDiffStruct_def)
  have sh: "shown k ign h f =
              (State (nodes h f) = opCreate \<or> State (nodes h f) = opModify)"
    using assms(4,5,7) by (auto simp: shown_def shouldPrintNode_def)
  show ?thesis
    using visit_all_GetDiffStruct_sets[OF v] assms(3,6,7) sh by auto
qed

text \<open>
  Claim C3 says that a node that survives both filters, with \<^verbatim>\<open>deleted_in_snapshot\<close> set
  and a state other than Deleted, Unspecified included, is in the deleted bucket. The
  code loses such a deletion: \<^verbatim>\<open>GetDiffStruct\<close> leaves a node that \<^verbatim>\<open>shouldPrintNode\<close>
  rejects before it comes to the shadow emit, and \<^verbatim>\<open>shouldPrintNode\<close> rejects every state
  but Created, Modified and Deleted. After
  \<^verbatim>\<open>rename bar -> o1-2-3; truncate bar/a/x; rmdir o1-2-3/a\<close> the node \<^verbatim>\<open>/bar/a\<close> is visited,
  is neither ignored nor temporary, has the state Unspecified and the flag, which
  \<^verbatim>\<open>processDelete\<close> has set on it to mark it as deleted in this snapshot, and is in no
  bucket of the document; \<^verbatim>\<open>print\<close>, which tests the flag outside the \<^verbatim>\<open>shouldPrintNode\<close>
  test, does print its deleted line.
\<close>

theorem shadow_emit_lost:
  "(case ProcessBTRFSStream 4 shadow_stream of
      Inr (Some (d, h)) \<Rightarrow>
        getNodeByPath d ''bar/a'' h = Some 3
        \<and> State (nodes h 3) = opUnspec
        \<and> DeletedInSnapshot (nodes h 3)
        \<and> traverse 4 h (root d) = Some [1, 3, 4, 2]
        \<and> isBTRFSTemporaryNode 4 h 3 = Some False
        \<and> Matches 4 [] h 3 = Some False
        \<and> GetDiffStruct 4 d [] h = Some \<lparr>Added = [], Changed = [4], Deleted = [1]\<rparr>
        \<and> print 4 d [] h = Some [Line_String 1, Line_StringForDeleted 3, Line_String 4]
    | _ \<Rightarrow> False)"
  by (simp add: exec exec_out)

section \<open>The temporary-node filter\<close>

text \<open>
  The matcher finds exactly the strings that contain the letter \<open>o\<close>, digits, a dash,
  digits, a dash and a digit, anywhere.
\<close>

lemma not_digit_dash: "\<not> is_digit CHR ''-''"
  by (simp add: is_digit_def)

lemma span_digits:
  assumes "list_all is_digit ds" and "\<not> is_digit c"
  shows "takeWhile is_digit (ds @ c # r) = ds" and "dropWhile is_digit (ds @ c # r) = c # r"
  using assms by (induction ds) auto

lemma match_here_intro:
  assumes "d1 \<noteq> []" "d2 \<noteq> []" "d3 \<noteq> []"
      and "list_all is_digit d1" "list_all is_digit d2" "list_all is_digit d3"
  shows "match_here (''o'' @ d1 @ ''-'' @ d2 @ ''-'' @ d3 @ post)"
proof -
  obtain c3 r3 where d3: "d3 = c3 # r3" using assms(3) by (cases d3) auto
  have c3: "is_digit c3" using assms(6) d3 by simp
  show ?thesis
    using assms(1,2) c3
    by (simp add: match_here_def d3 span_digits[OF assms(4) not_digit_dash]
          span_digits[OF assms(5) not_digit_dash] Let_def)
qed

lemma regex_append_left:
  "regexNewNode_MatchString s \<Longrightarrow> regexNewNode_MatchString (pre @ s)"
proof (induction pre)
  case Nil
  then show ?case by simp
next
  case (Cons a pre)
  then show ?case by (cases "pre @ s") auto
qed

lemma regex_match_here: "match_here s \<Longrightarrow> regexNewNode_MatchString s"
  by (cases s) (auto simp: match_here_def)

lemma regex_substring:
  assumes "d1 \<noteq> []" "d2 \<noteq> []" "d3 \<noteq> []"
      and "list_all is_digit d1" "list_all is_digit d2" "list_all is_digit d3"
  shows "regexNewNode_MatchString (pre @ ''o'' @ d1 @ ''-'' @ d2 @ ''-'' @ d3 @ post)"
  using regex_append_left[OF regex_match_here[OF match_here_intro[OF assms]]] by simp

lemma regex_only_substring:
  assumes "regexNewNode_MatchString s"
  shows "\<exists>pre d1 d2 d3 post. s = pre @ ''o'' @ d1 @ ''-'' @ d2 @ ''-'' @ d3 @ post
           \<and> d1 \<noteq> [] \<and> d2 \<noteq> [] \<and> d3 \<noteq> []
           \<and> list_all is_digit d1 \<and> list_all is_digit d2 \<and> list_all is_digit d3"
  using assms
proof (induction s)
  case Nil
  then show ?case by simp
next
  case (Cons c cs)
  show ?case
  proof (cases "match_here (c # cs)")
    case True
    define d1 where "d1 = takeWhile is_digit cs"
    define r1 where "r1 = dropWhile is_digit cs"
    from True have c: "c = CHR ''o''" and n1: "d1 \<noteq> []"
      by (auto simp: match_here_def Let_def d1_def)
    from True obtain r2 where r1: "r1 = CHR ''-'' # r2"
      by (auto simp: match_here_def Let_def r1_def split: list.splits)
    define d2 where "d2 = takeWhile is_digit r2"
    define r3 where "r3 = dropWhile is_digit r2"
    from True r1 have n2: "d2 \<noteq> []"
      by (auto simp: match_here_def Let_def d2_def r1_def split: list.splits)
    from True r1 obtain r4 where r3: "r3 = CHR ''-'' # r4"
      by (auto simp: match_here_def Let_def r3_def r1_def split: list.splits)
    from True r1 r3 obtain c3 r5 where r4: "r4 = c3 # r5" and c3: "is_digit c3"
      by (auto simp: match_here_def Let_def r3_def r1_def split: list.splits)
    have "cs = d1 @ r1" by (simp add: d1_def r1_def)
    moreover have "r2 = d2 @ r3" by (simp add: d2_def r3_def)
    ultimately have "c # cs = [] @ ''o'' @ d1 @ ''-'' @ d2 @ ''-'' @ [c3] @ r5"
      using c r1 r3 r4 by simp
    moreover have "list_all is_digit d1" "list_all is_digit d2"
      by (simp_all add: d1_def d2_def list_all_iff) (auto dest: set_takeWhileD)
    ultimately show ?thesis using n1 n2 c3
      by (intro exI[of _ "[]"] exI[of _ d1] exI[of _ d2] exI[of _ "[c3]"] exI[of _ r5]) simp
  next
    case False
    with Cons.prems have "regexNewNode_MatchString cs" by simp
    from Cons.IH[OF this] obtain pre d1 d2 d3 post where
      "cs = pre @ ''o'' @ d1 @ ''-'' @ d2 @ ''-'' @ d3 @ post"
      "d1 \<noteq> []" "d2 \<noteq> []" "d3 \<noteq> []"
      "list_all is_digit d1" "list_all is_digit d2" "list_all is_digit d3"
      by blast
    then show ?thesis
      by (intro exI[of _ "c # pre"] exI[of _ d1] exI[of _ d2] exI[of _ d3] exI[of _ post]) simp
  qed
qed

lemma DiffNode_root_child_of_top:
  assumes "DiffNode_root k h n = Some r" and "Parent (nodes h n) = Some p"
      and "Parent (nodes h p) = None"
  shows "r = p"
proof -
  obtain k1 where k: "k = Suc k1" using assms(1) by (cases k) auto
  with assms have r1: "DiffNode_root k1 h p = Some r" by simp
  then obtain k2 where "k1 = Suc k2" by (cases k1) auto
  with r1 assms(3) show ?thesis by simp
qed


text \<open>
  Claim C10, as amended. A child of the root whose name contains a match of
  \<^verbatim>\<open>o\d+-\d+-\d+\<close> anywhere is in no bucket of the structured document, whatever its state,
  and the pretty output does not print its record; the pretty output still prints its
  deleted line when the node is visited, not ignored, has \<^verbatim>\<open>DeletedInSnapshot\<close> set and a
  state other than Deleted.
\<close>

theorem temporary_filter_substring:
  assumes "GetDiffStruct k d ign h = Some s"
      and "print k d ign h = Some out"
      and "traverse k h (root d) = Some fs"
      and "Parent (nodes h n) = Some (root d)"
      and "Parent (nodes h (root d)) = None"
      and "Path (nodes h n) = pre @ ''o'' @ d1 @ ''-'' @ d2 @ ''-'' @ d3 @ post"
      and "d1 \<noteq> []" "d2 \<noteq> []" "d3 \<noteq> []"
      and "list_all is_digit d1" "list_all is_digit d2" "list_all is_digit d3"
  shows "n \<notin> set (Added s) \<and> n \<notin> set (Changed s) \<and> n \<notin> set (Deleted s)
       \<and> Line_String n \<notin> set out
       \<and> (Line_StringForDeleted n \<in> set out) =
           (n \<in> set fs \<and> Matches k ign h n = Some False
            \<and> DeletedInSnapshot (nodes h n) \<and> State (nodes h n) \<noteq> opDelete)"
proof -
  have re: "regexNewNode_MatchString (Path (nodes h n))"
    using regex_substring[OF assms(7-12)] assms(6) by simp
  have "shouldPrintNode k h n \<noteq> Some True"
    using assms(4,5) re
    by (auto simp: shouldPrintNode_def isBTRFSTemporaryNode_def split: option.splits
          dest: DiffNode_root_child_of_top)
  then have ns: "\<not> shown k ign h n" by (simp add: shown_def)
  from assms(1,3) have
    v: "visit_all (GetDiffStruct_visit k ign h) fs \<lparr>Added = [], Changed = [], Deleted = []\<rparr> = Some s"
    by (simp add: GetDiffStruct_def)
  from assms(2,3) have p: "visit_all (print_visit k ign h) fs [] = Some out"
    by (simp add: print_def)
  show ?thesis
    using visit_all_GetDiffStruct_sets[OF v] visit_all_print_sets[OF p] ns by auto
qed

theorem temporary_filter_substring_witness:
  "GetDiffStruct 4 \<lparr>root = 0\<rparr> [] (final_heap 4 photo_stream)
     = Some \<lparr>Added = [], Changed = [], Deleted = []\<rparr>
   \<and> print 4 \<lparr>root = 0\<rparr> [] (final_heap 4 photo_stream) = Some [Line_StringForDeleted 3]
   \<and> traverse 4 (final_heap 4 photo_stream) 0 = Some [3]
   \<and> Parent (nodes (final_heap 4 photo_stream) 3) = Some 0
   \<and> Parent (nodes (final_heap 4 photo_stream) 0) = None
   \<and> Path (nodes (final_heap 4 photo_stream) 3) = ''phot'' @ ''o'' @ ''1'' @ ''-'' @ ''2'' @ ''-'' @ ''3'' @ ''''
   \<and> State (nodes (final_heap 4 photo_stream) 3) = opCreate
   \<and> Line_String 3 \<notin> set [Line_StringForDeleted 3]"
proof -
  have g: "GetDiffStruct 4 \<lparr>root = 0\<rparr> [] (final_heap 4 photo_stream)
     = Some \<lparr>Added = [], Changed = [], Deleted = []\<rparr>"
    by (simp add: exec exec_out)
  have p: "print 4 \<lparr>root = 0\<rparr> [] (final_heap 4 photo_stream) = Some [Line_StringForDeleted 3]"
    by (simp add: exec exec_out)
  have t: "traverse 4 (final_heap 4 photo_stream) (root \<lparr>root = 0\<rparr>) = Some [3]"
    by (simp add: exec exec_out)
  have pa: "Parent (nodes (final_heap 4 photo_stream) 3) = Some (root \<lparr>root = 0\<rparr>)"
    by (simp add: exec)
  have pr: "Parent (nodes (final_heap 4 photo_stream) (root \<lparr>root = 0\<rparr>)) = None"
    by (simp add: exec)
  have nm: "Path (nodes (final_heap 4 photo_stream) 3)
              = ''phot'' @ ''o'' @ ''1'' @ ''-'' @ ''2'' @ ''-'' @ ''3'' @ ''''"
    by (simp add: exec)
  have st: "State (nodes (final_heap 4 photo_stream) 3) = opCreate"
    by (simp add: exec)
  have dg: "list_all is_digit ''1''" "list_all is_digit ''2''" "list_all is_digit ''3''"
    by (simp_all add: is_digit_def)
  have ne: "''1'' \<noteq> []" "''2'' \<noteq> []" "''3'' \<noteq> []" by simp_all
  show ?thesis
    using temporary_filter_substring [OF g p t pa pr nm ne dg] g p t pa pr nm st by simp
qed


text \<open>
  Claim C10 as stated fails for the pretty output: after
  \<^verbatim>\<open>unlink photo1-2-3; link photo1-2-3 -> x\<close> the node \<^verbatim>\<open>photo1-2-3\<close> under the root is
  temporary and in no bucket, but the pretty output has a line for it.
\<close>

theorem temporary_in_pretty_output_counterexample:
  "(case ProcessBTRFSStream 4 photo_stream of
      Inr (Some (d, h)) \<Rightarrow>
        getNodeByPath d ''photo1-2-3'' h = Some 3
        \<and> Parent (nodes h 3) = Some (root d)
        \<and> State (nodes h 3) = opCreate
        \<and> isBTRFSTemporaryNode 4 h 3 = Some True
        \<and> GetDiffStruct 4 d [] h = Some \<lparr>Added = [], Changed = [], Deleted = []\<rparr>
        \<and> print 4 d [] h = Some [Line_StringForDeleted 3]
    | _ \<Rightarrow> False)"
  by (simp add: exec exec_out)

section \<open>Chain paths\<close>

lemma GetChainPath_from_root:
  assumes "GetChainPath k h n = Some p" and "DiffNode_root k h n = Some r"
  shows "\<exists>sfx. p = Path (nodes h r) @ sfx
           \<and> (Parent (nodes h n) = None \<longrightarrow> sfx = [])
           \<and> (Parent (nodes h n) \<noteq> None \<longrightarrow> (\<exists>t. sfx = CHR ''/'' # t))"
  using assms
proof (induction k arbitrary: n p)
  case 0
  then show ?case by simp
next
  case (Suc k)
  show ?case
  proof (cases "Parent (nodes h n)")
    case None
    with Suc.prems show ?thesis by simp
  next
    case (Some q)
    with Suc.prems obtain pp where
      pp: "GetChainPath k h q = Some pp" and p: "p = pp @ ''/'' @ Path (nodes h n)"
      and r: "DiffNode_root k h q = Some r"
      by (auto split: option.splits)
    from Suc.IH[OF pp r] obtain sfx where
      s: "pp = Path (nodes h r) @ sfx" and
      s0: "Parent (nodes h q) = None \<longrightarrow> sfx = []" and
      s1: "Parent (nodes h q) \<noteq> None \<longrightarrow> (\<exists>t. sfx = CHR ''/'' # t)"
      by (elim exE conjE)
    have "\<exists>t. sfx @ ''/'' @ Path (nodes h n) = CHR ''/'' # t"
    proof (cases "Parent (nodes h q)")
      case None
      with s0 show ?thesis by simp
    next
      case (Some g)
      with s1 obtain t' where "sfx = CHR ''/'' # t'" by auto
      then show ?thesis by simp
    qed
    then obtain t where t: "sfx @ ''/'' @ Path (nodes h n) = CHR ''/'' # t" ..
    show ?thesis
      using t by (intro exI[of _ "sfx @ ''/'' @ Path (nodes h n)"]) (simp add: Some p s)
  qed
qed


text \<open>
  A chain path is made of the names along the parent chain. When the chain ends at a
  node with the empty name, as the root has, the chain path begins with a slash if the
  node has a parent, and is the empty string for the top node itself.
\<close>

lemma chain_path_from_top:
  assumes "GetChainPath k h n = Some p"
      and "DiffNode_root k h n = Some r"
      and "Path (nodes h r) = []"
  shows "(Parent (nodes h n) \<noteq> None \<longrightarrow> (\<exists>t. p = CHR ''/'' # t))
       \<and> (Parent (nodes h n) = None \<longrightarrow> p = [])"
  using GetChainPath_from_root[OF assms(1,2)] assms(3) by auto

text \<open>
  Claim C9 says that every path of the document begins with a slash. After
  \<^verbatim>\<open>mkfile o1-2-3/X/c; rename o1-2-3/X -> Y\<close> the added bucket holds the file \<^verbatim>\<open>c\<close> with the
  path \<^verbatim>\<open>X/c\<close>. The rename handler copies the children map of \<^verbatim>\<open>X\<close> into the new node
  \<^verbatim>\<open>Y\<close> and leaves the parent of \<^verbatim>\<open>c\<close> at \<^verbatim>\<open>X\<close> (the loop of \<^verbatim>\<open>addNode\<close> that merges
  children attaches each to its new parent), and it deletes the source, which under the
  directory \<^verbatim>\<open>o1-2-3\<close> is taken out of the tree. The node reached as \<^verbatim>\<open>Y/c\<close> has the chain
  path of its stale parent chain, the names \<^verbatim>\<open>X\<close> and \<^verbatim>\<open>c\<close> with no slash in front.
\<close>

theorem relative_bucket_path:
  "(case ProcessBTRFSStream 4 orphan_dir_stream of
      Inr (Some (d, h)) \<Rightarrow>
        getNodeByPath d ''Y'' h = Some 4
        \<and> getNodeByPath d ''Y/c'' h = Some 3
        \<and> State (nodes h 3) = opCreate
        \<and> Parent (nodes h 3) = Some 2
        \<and> Path (nodes h 2) = ''X'' \<and> Parent (nodes h 2) = None
        \<and> GetChainPath 4 h 3 = Some ''X/c''
        \<and> GetDiffStruct 4 d [] h = Some \<lparr>Added = [4, 3], Changed = [], Deleted = []\<rparr>
        \<and> printJSON 4 d [] h =
            Some \<lparr>added = [\<lparr>json_node_type = DiffNodeTypeDir, json_path = ''/Y'',
                             json_state = opCreate, json_relations = [],
                             json_changes = []\<rparr>,
                            \<lparr>json_node_type = DiffNodeTypeFile, json_path = ''X/c'',
                             json_state = opCreate, json_relations = [],
                             json_changes = []\<rparr>],
                   changed = [], deleted = []\<rparr>
        \<and> map_option emitted_paths (printJSON 4 d [] h) = Some [''/Y'', ''X/c'']
    | _ \<Rightarrow> False)"
  by (simp add: exec exec_out)

text \<open>
  A relation path is relative as well when the target of the relation is kept apart from
  the tree: after \<^verbatim>\<open>symlink lnk -> file\<close> the document has the relation path \<^verbatim>\<open>file\<close>, the
  \<^verbatim>\<open>PATH_LINK\<close> value as it came.
\<close>

theorem relative_relation_path:
  "(case ProcessBTRFSStream 4 symlink_stream of
      Inr (Some (d, h)) \<Rightarrow>
        printJSON 4 d [] h =
          Some \<lparr>added = [\<lparr>json_node_type = DiffNodeTypeSymLink, json_path = ''/lnk'',
                           json_state = opCreate,
                           json_relations = [\<lparr>rel_path = ''file'',
                                               rel_reason = DiffNodeReasonLinkDest\<rparr>],
                           json_changes = []\<rparr>],
                 changed = [], deleted = []\<rparr>
        \<and> map_option emitted_paths (printJSON 4 d [] h) = Some [''/lnk'', ''file'']
    | _ \<Rightarrow> False)"
  by (simp add: exec exec_out)

section \<open>Write coalescing\<close>

text \<open>
  The decimal rendering of a number determines the number, so a write descriptor
  determines its offset and its length.
\<close>

lemma digit_char_val: "d < 10 \<Longrightarrow> of_char (digit_char d) = 48 + d"
proof -
  assume "d < 10"
  then have "d = 0 \<or> d = 1 \<or> d = 2 \<or> d = 3 \<or> d = 4 \<or> d = 5 \<or> d = 6 \<or> d = 7 \<or> d = 8 \<or> d = 9"
    by arith
  then show ?thesis by (auto simp: digit_char_def)
qed

lemma is_digit_digit_char: "d < 10 \<Longrightarrow> is_digit (digit_char d)"
  by (simp add: is_digit_def digit_char_val)

lemma dec_val_show_base: "dec_val (show_base 10 n) = n"
proof (induction "10::nat" n rule: show_base.induct)
  case (1 n)
  show ?case
  proof (cases "n < 10")
    case True
    then show ?thesis by (simp add: show_base.simps[of 10 n] dec_val_def digit_char_val)
  next
    case False
    then have "dec_val (show_base 10 (n div 10)) = n div 10" using 1 by simp
    then show ?thesis using False
      by (simp add: show_base.simps[of 10 n] dec_val_def digit_char_val)
  qed
qed

lemma show_base_digits: "list_all is_digit (show_base 10 n)"
proof (induction "10::nat" n rule: show_base.induct)
  case (1 n)
  show ?case
  proof (cases "n < 10")
    case True
    then show ?thesis by (simp add: show_base.simps[of 10 n] is_digit_digit_char)
  next
    case False
    then have "list_all is_digit (show_base 10 (n div 10))" using 1 by simp
    then show ?thesis using False
      by (simp add: show_base.simps[of 10 n] is_digit_digit_char)
  qed
qed

lemma fmt_d_inj: "fmt_d a = fmt_d b \<Longrightarrow> a = b"
proof -
  assume "fmt_d a = fmt_d b"
  then have "dec_val (show_base 10 (unat a)) = dec_val (show_base 10 (unat b))"
    by (simp add: fmt_d_def)
  then have "unat a = unat b" by (simp add: dec_val_show_base)
  then show ?thesis by (simp add: word_unat_eq_iff)
qed

lemma not_digit_colon: "\<not> is_digit CHR '':''"
  by (simp add: is_digit_def)

lemma digits_then_colon:
  assumes "list_all is_digit a" and "list_all is_digit b"
      and "a @ CHR '':'' # r = b @ CHR '':'' # r'"
  shows "a = b \<and> r = r'"
proof -
  have "takeWhile is_digit (a @ CHR '':'' # r) = a"
    using assms(1) not_digit_colon by (induction a) auto
  moreover have "takeWhile is_digit (b @ CHR '':'' # r') = b"
    using assms(2) not_digit_colon by (induction b) auto
  ultimately have "a = b" using assms(3) by simp
  then show ?thesis using assms(3) by simp
qed

lemma fmt_write_inj:
  assumes "fmt_write o1 l1 = fmt_write o2 l2"
  shows "o1 = o2 \<and> l1 = l2"
proof -
  from assms have
    "fmt_d o1 @ CHR '':'' # (''data_len='' @ fmt_d l1) = fmt_d o2 @ CHR '':'' # (''data_len='' @ fmt_d l2)"
    by (simp add: fmt_write_def)
  from digits_then_colon[OF _ _ this]
  have "fmt_d o1 = fmt_d o2 \<and> fmt_d l1 = fmt_d l2"
    by (simp add: fmt_d_def show_base_digits)
  then show ?thesis by (auto dest: fmt_d_inj)
qed

lemma fmt_write_prefix: "HasPrefix (fmt_write off len) ''write''"
  by (simp add: HasPrefix_def fmt_write_def)

lemma ncw_Nil: "no_contiguous_writes []"
  by (simp add: no_contiguous_writes_def)

lemma ncw_snoc:
  "no_contiguous_writes (cs @ [c]) =
     (no_contiguous_writes cs
      \<and> (cs = [] \<or> \<not> (\<exists>o1 l1 o2 l2. last cs = fmt_write o1 l1 \<and> c = fmt_write o2 l2
                          \<and> o1 + l1 = o2)))"
proof (cases "cs = []")
  case True
  then show ?thesis by (simp add: no_contiguous_writes_def)
next
  case False
  then have lst: "last cs = cs ! (length cs - 1)" by (simp add: last_conv_nth)
  have len: "Suc (length cs - 1) = length cs" using False by simp
  show ?thesis
  proof
    assume a: "no_contiguous_writes (cs @ [c])"
    have "no_contiguous_writes cs"
      unfolding no_contiguous_writes_def
    proof (intro notI, elim exE conjE)
      fix i o1 l1 o2 l2
      assume "Suc i < length cs" "cs ! i = fmt_write o1 l1" "cs ! Suc i = fmt_write o2 l2"
        "o1 + l1 = o2"
      then have "Suc i < length (cs @ [c]) \<and> (cs @ [c]) ! i = fmt_write o1 l1
          \<and> (cs @ [c]) ! Suc i = fmt_write o2 l2 \<and> o1 + l1 = o2"
        by (simp add: nth_append)
      with a show False unfolding no_contiguous_writes_def by blast
    qed
    moreover have "\<not> (\<exists>o1 l1 o2 l2. last cs = fmt_write o1 l1 \<and> c = fmt_write o2 l2
                          \<and> o1 + l1 = o2)"
    proof (intro notI, elim exE conjE)
      fix o1 l1 o2 l2
      assume "last cs = fmt_write o1 l1" "c = fmt_write o2 l2" "o1 + l1 = o2"
      then have "Suc (length cs - 1) < length (cs @ [c])
          \<and> (cs @ [c]) ! (length cs - 1) = fmt_write o1 l1
          \<and> (cs @ [c]) ! Suc (length cs - 1) = fmt_write o2 l2 \<and> o1 + l1 = o2"
        using False lst len by (simp add: nth_append)
      with a show False unfolding no_contiguous_writes_def by blast
    qed
    ultimately show "no_contiguous_writes cs
      \<and> (cs = [] \<or> \<not> (\<exists>o1 l1 o2 l2. last cs = fmt_write o1 l1 \<and> c = fmt_write o2 l2
                          \<and> o1 + l1 = o2))" by simp
  next
    assume b: "no_contiguous_writes cs
      \<and> (cs = [] \<or> \<not> (\<exists>o1 l1 o2 l2. last cs = fmt_write o1 l1 \<and> c = fmt_write o2 l2
                          \<and> o1 + l1 = o2))"
    show "no_contiguous_writes (cs @ [c])"
      unfolding no_contiguous_writes_def
    proof (intro notI, elim exE conjE)
      fix i o1 l1 o2 l2
      assume i: "Suc i < length (cs @ [c])" and x: "(cs @ [c]) ! i = fmt_write o1 l1"
        and y: "(cs @ [c]) ! Suc i = fmt_write o2 l2" and z: "o1 + l1 = o2"
      show False
      proof (cases "Suc i < length cs")
        case True
        with x y have "cs ! i = fmt_write o1 l1" "cs ! Suc i = fmt_write o2 l2"
          by (simp_all add: nth_append)
        with True z b show False unfolding no_contiguous_writes_def by blast
      next
        case F: False
        with i have ieq: "i = length cs - 1" and si: "Suc i = length cs" using False by auto
        from x ieq have "last cs = fmt_write o1 l1" using False lst by (simp add: nth_append)
        moreover from y si have "c = fmt_write o2 l2" by (simp add: nth_append)
        ultimately show False using b z False by blast
      qed
    qed
  qed
qed

lemma ncw_butlast: "no_contiguous_writes cs \<Longrightarrow> no_contiguous_writes (butlast cs)"
proof (cases "cs = []")
  case True
  then show "no_contiguous_writes cs \<Longrightarrow> no_contiguous_writes (butlast cs)" by simp
next
  case False
  assume "no_contiguous_writes cs"
  then have "no_contiguous_writes (butlast cs @ [last cs])" using False by simp
  then show "no_contiguous_writes (butlast cs)" by (simp only: ncw_snoc)
qed

lemma writes_tracked_new: "writes_tracked (new_DiffNode t p st rels par ch)"
  by (simp add: writes_tracked_def new_DiffNode_def ncw_Nil)

lemma writes_tracked_frame:
  assumes "Changes y = Changes x" and "lastDataWrittenOffset y = lastDataWrittenOffset x"
      and "lastDataWrittenLen y = lastDataWrittenLen x"
  shows "writes_tracked y = writes_tracked x"
  using assms by (simp add: writes_tracked_def)

lemma record_write_changes:
  "Changes (record_write off len x) =
     (if coalesces x off
      then butlast (Changes x) @ [fmt_write (lastDataWrittenOffset x) (len + lastDataWrittenLen x)]
      else Changes x @ [fmt_write off len])"
  by (simp add: record_write_def Let_def)

lemma writes_tracked_record_write:
  assumes "writes_tracked x"
  shows "writes_tracked (record_write off len x)"
proof (cases "coalesces x off")
  case False
  have pair: "Changes x = [] \<or> \<not> (\<exists>o1 l1 o2 l2. last (Changes x) = fmt_write o1 l1
            \<and> fmt_write off len = fmt_write o2 l2 \<and> o1 + l1 = o2)"
  proof (cases "Changes x = []")
    case True
    then show ?thesis by simp
  next
    case ne: False
    have "\<not> (\<exists>o1 l1 o2 l2. last (Changes x) = fmt_write o1 l1
            \<and> fmt_write off len = fmt_write o2 l2 \<and> o1 + l1 = o2)"
    proof (intro notI, elim exE conjE)
      fix o1 l1 o2 l2
      assume l: "last (Changes x) = fmt_write o1 l1" and n: "fmt_write off len = fmt_write o2 l2"
        and c: "o1 + l1 = o2"
      from l have pre: "HasPrefix (last (Changes x)) ''write''" by (simp add: fmt_write_prefix)
      with assms ne have "last (Changes x)
          = fmt_write (lastDataWrittenOffset x) (lastDataWrittenLen x)"
        by (simp add: writes_tracked_def)
      with l have "lastDataWrittenOffset x = o1 \<and> lastDataWrittenLen x = l1"
        using fmt_write_inj by metis
      moreover from n have "off = o2" using fmt_write_inj by metis
      ultimately have "coalesces x off" using pre ne c by (simp add: coalesces_def)
      with False show False by simp
    qed
    then show ?thesis by simp
  qed
  show ?thesis
    using False assms pair
    by (simp add: writes_tracked_def record_write_def Let_def ncw_snoc)
next
  case True
  then have ne: "Changes x \<noteq> []" and pre: "HasPrefix (last (Changes x)) ''write''"
    by (simp_all add: coalesces_def)
  with assms have lst: "last (Changes x)
      = fmt_write (lastDataWrittenOffset x) (lastDataWrittenLen x)"
    by (simp add: writes_tracked_def)
  from assms have ncw: "no_contiguous_writes (butlast (Changes x) @ [last (Changes x)])"
    using ne by (simp add: writes_tracked_def)
  then have old: "no_contiguous_writes (butlast (Changes x))
      \<and> (butlast (Changes x) = [] \<or> \<not> (\<exists>o1 l1 o2 l2. last (butlast (Changes x)) = fmt_write o1 l1
            \<and> last (Changes x) = fmt_write o2 l2 \<and> o1 + l1 = o2))"
    by (simp only: ncw_snoc)
  have pair: "butlast (Changes x) = [] \<or> \<not> (\<exists>o1 l1 o2 l2.
        last (butlast (Changes x)) = fmt_write o1 l1
        \<and> fmt_write (lastDataWrittenOffset x) (len + lastDataWrittenLen x) = fmt_write o2 l2
        \<and> o1 + l1 = o2)"
  proof (cases "butlast (Changes x) = []")
    case True
    then show ?thesis by simp
  next
    case nb: False
    have "\<not> (\<exists>o1 l1 o2 l2.
        last (butlast (Changes x)) = fmt_write o1 l1
        \<and> fmt_write (lastDataWrittenOffset x) (len + lastDataWrittenLen x) = fmt_write o2 l2
        \<and> o1 + l1 = o2)"
    proof (intro notI, elim exE conjE)
      fix o1 l1 o2 l2
      assume a: "last (butlast (Changes x)) = fmt_write o1 l1"
        and b: "fmt_write (lastDataWrittenOffset x) (len + lastDataWrittenLen x) = fmt_write o2 l2"
        and c: "o1 + l1 = o2"
      from b have "lastDataWrittenOffset x = o2" using fmt_write_inj by metis
      with a c lst have "last (butlast (Changes x)) = fmt_write o1 l1
            \<and> last (Changes x) = fmt_write o2 (lastDataWrittenLen x) \<and> o1 + l1 = o2"
        by simp
      then have "\<exists>o1 l1 o2 l2. last (butlast (Changes x)) = fmt_write o1 l1
            \<and> last (Changes x) = fmt_write o2 l2 \<and> o1 + l1 = o2"
        by (intro exI)
      with old nb show False by blast
    qed
    then show ?thesis by simp
  qed
  show ?thesis
    using True old pair
    by (simp add: writes_tracked_def record_write_def Let_def ncw_snoc)
qed

lemma writes_tracked_add_change:
  assumes "writes_tracked x" and "\<not> HasPrefix c ''write''"
  shows "writes_tracked (add_change c x)"
proof -
  have "\<not> (\<exists>o1 l1 o2 l2. last (Changes x) = fmt_write o1 l1 \<and> c = fmt_write o2 l2
            \<and> o1 + l1 = o2)"
    using assms(2) fmt_write_prefix by auto
  then show ?thesis
    using assms by (simp add: writes_tracked_def add_change_def ncw_snoc)
qed

lemma keeps_ret: "keeps (ret x)"
  by (simp add: keeps_def ret_def)

lemma keeps_fail: "keeps (fail e)"
  by (simp add: keeps_def fail_def)

lemma keeps_gets: "keeps (gets f)"
  by (simp add: keeps_def gets_def)

lemma keeps_liftE: "keeps (liftE r)"
  by (cases r) (simp_all add: liftE_def keeps_ret keeps_fail)

lemma keeps_bnd:
  assumes "keeps m" and "\<And>x. keeps (f x)"
  shows "keeps (bnd m f)"
  unfolding keeps_def bnd_def
proof (intro allI impI)
  fix h assume a: "all_tracked h"
  obtain r h' where m: "m h = (r, h')" by (cases "m h")
  with assms(1) a have h': "all_tracked h'" by (auto simp: keeps_def)
  show "all_tracked (snd (case m h of (Inl e, h') \<Rightarrow> (Inl e, h') | (Inr x, h') \<Rightarrow> f x h'))"
  proof (cases r)
    case (Inl e)
    with m h' show ?thesis by simp
  next
    case (Inr x)
    with m h' assms(2)[of x] show ?thesis by (simp add: keeps_def)
  qed
qed

lemma keeps_upd:
  assumes "\<And>x. writes_tracked x \<Longrightarrow> writes_tracked (f x)"
  shows "keeps (upd a f)"
  using assms by (simp add: keeps_def upd_def all_tracked_def)

lemma keeps_alloc:
  assumes "writes_tracked n"
  shows "keeps (alloc n)"
  using assms by (simp add: keeps_def alloc_def all_tracked_def)

lemma keeps_forM:
  assumes "\<And>x. keeps (f x)"
  shows "keeps (forM xs f)"
  by (induction xs) (auto intro: keeps_ret keeps_bnd assms)

lemma keeps_if: "keeps a \<Longrightarrow> keeps b \<Longrightarrow> keeps (if c then a else b)"
  by simp

lemma keeps_case_option:
  "keeps a \<Longrightarrow> (\<And>y. keeps (b y)) \<Longrightarrow> keeps (case x of None \<Rightarrow> a | Some y \<Rightarrow> b y)"
  by (cases x) simp_all

lemma keeps_case_prod: "(\<And>a b. keeps (f a b)) \<Longrightarrow> keeps (case p of (a, b) \<Rightarrow> f a b)"
  by (cases p) simp

lemma keeps_lam: "(\<And>h. all_tracked h \<Longrightarrow> all_tracked (snd (f h))) \<Longrightarrow> keeps f"
  by (simp add: keeps_def)

lemma keepsD: "keeps m \<Longrightarrow> all_tracked h \<Longrightarrow> all_tracked (snd (m h))"
  by (simp add: keeps_def)

lemmas keeps_intros =
  keeps_ret keeps_fail keeps_gets keeps_liftE keeps_bnd keeps_forM keeps_if keeps_case_option
  keeps_case_prod keeps_alloc writes_tracked_new

lemma keeps_upd_frame:
  assumes "\<And>x. Changes (f x) = Changes x \<and> lastDataWrittenOffset (f x) = lastDataWrittenOffset x
              \<and> lastDataWrittenLen (f x) = lastDataWrittenLen x"
  shows "keeps (upd a f)"
  by (rule keeps_upd) (simp add: writes_tracked_frame[of "f _"] assms)

lemma keeps_set_child: "keeps (set_child n key v)"
  unfolding set_child_def
  by (rule keeps_lam) (auto split: option.splits intro!: keepsD keeps_upd_frame)

lemma keeps_deleteNode: "keeps (deleteNode n node)"
  unfolding deleteNode_def
  by (intro keeps_intros keeps_upd_frame) simp_all

lemma keeps_removeFromParent: "keeps (removeFromParent n)"
  unfolding removeFromParent_def
  by (intro keeps_intros keeps_deleteNode)

lemma keeps_addNode_body:
  assumes "\<And>a b. keeps (rec a b)"
  shows "keeps (addNode_body rec n node)"
  unfolding addNode_body_def
  by (intro keeps_intros keeps_upd_frame keeps_deleteNode keeps_removeFromParent
        keeps_set_child assms) simp_all

lemma keeps_addNode: "keeps (addNode k n node)"
proof (induction k arbitrary: n node)
  case 0
  show ?case by (simp add: keeps_addNode_body keeps_fail)
next
  case (Suc k)
  show ?case by (simp add: keeps_addNode_body Suc)
qed

lemma keeps_mkdirp_loop: "keeps (mkdirp_loop old new cur entries)"
proof (induction entries arbitrary: cur)
  case Nil
  show ?case by (simp add: keeps_ret)
next
  case (Cons entry entries)
  show ?case
  proof (rule keeps_lam)
    fix h assume a: "all_tracked h"
    show "all_tracked (snd (mkdirp_loop old new cur (entry # entries) h))"
    proof (cases "child h cur entry")
      case (Some existing)
      then show ?thesis using keepsD[OF Cons a] by simp
    next
      case None
      have "keeps (bnd (alloc (new_DiffNode DiffNodeTypeDir entry
                 (if (if entries = [] then new else old) then opCreate else opUnspec) []
                 (Some cur) (Some [])))
              (\<lambda>newNode. bnd (set_child cur entry newNode)
                (\<lambda>_. mkdirp_loop old new newNode entries)))"
        by (intro keeps_intros keeps_set_child Cons)
      from keepsD[OF this a] None show ?thesis by (simp add: Let_def)
    qed
  qed
qed

lemma keeps_mkdirp: "keeps (mkdirp n path old new)"
  by (simp add: mkdirp_def keeps_mkdirp_loop)

lemma keeps_getNodeParentOrMkdir: "keeps (getNodeParentOrMkdir d path)"
  by (simp add: getNodeParentOrMkdir_def Let_def keeps_ret keeps_mkdirp)

lemmas keeps_tree =
  keeps_intros keeps_upd_frame keeps_set_child keeps_deleteNode keeps_removeFromParent
  keeps_addNode keeps_mkdirp keeps_getNodeParentOrMkdir

lemma keeps_ReadParam_string: "keeps (ReadParam_string command t)"
  unfolding ReadParam_string_def
  by (auto split: sum.splits prod.splits attr_val.splits intro: keeps_ret keeps_fail)

lemma keeps_ReadParam_uint64: "keeps (ReadParam_uint64 command t)"
  unfolding ReadParam_uint64_def
  by (auto split: sum.splits prod.splits attr_val.splits intro: keeps_ret keeps_fail)

lemma keeps_processCreate: "keeps (processCreate k d path command)"
  unfolding processCreate_def
  by (intro keeps_tree keeps_ReadParam_string) simp_all

lemma keeps_processDelete: "keeps (processDelete k d path command)"
  unfolding processDelete_def
  by (intro keeps_tree) simp_all

lemma writes_tracked_NodeType [simp]:
  "writes_tracked (x\<lparr>NodeType := t\<rparr>) = writes_tracked x"
  by (simp add: writes_tracked_def)

lemma writes_tracked_State [simp]:
  "writes_tracked (x\<lparr>State := t\<rparr>) = writes_tracked x"
  by (simp add: writes_tracked_def)

lemma keeps_upd_change:
  assumes "\<not> HasPrefix c ''write''"
  shows "keeps (upd a (add_change c))"
  by (rule keeps_upd) (simp add: writes_tracked_add_change assms)

lemma keeps_case_attr_val:
  assumes "\<And>a. keeps (f1 a)" "\<And>a. keeps (f2 a)" "\<And>a b. keeps (f3 a b)" "\<And>a b. keeps (f4 a b)"
  shows "keeps (case v of VUint64 a \<Rightarrow> f1 a | VString a \<Rightarrow> f2 a | VBytes a b \<Rightarrow> f3 a b
                | VTime a b \<Rightarrow> f4 a b)"
  using assms by (cases v) simp_all

lemma keeps_processModify: "keeps (processModify k d path command)"
  unfolding processModify_def
  by (intro keeps_intros keeps_case_attr_val keeps_upd keeps_upd_change keeps_addNode
        keeps_getNodeParentOrMkdir keeps_ReadParam_string keeps_ReadParam_uint64)
     (simp_all add: writes_tracked_record_write writes_tracked_add_change HasPrefix_def)

lemma keeps_wrap:
  assumes "keeps m"
  shows "keeps (\<lambda>h. case m h of (Inl e, h') \<Rightarrow> (Inl (g e), h') | (Inr u, h') \<Rightarrow> (Inr u, h'))"
  using assms by (auto simp: keeps_def split: prod.splits sum.splits)

lemma keeps_processRenameOrLink: "keeps (processRenameOrLink k d from to command)"
  unfolding processRenameOrLink_def Let_def
  by (intro keeps_tree keeps_processDelete keeps_wrap) simp_all

lemma keeps_processCommand: "keeps (processCommand k d command)"
  unfolding processCommand_def
  by (cases "Type_Op command")
     (auto simp: errors_Wrap_def
        intro!: keeps_tree keeps_ReadParam_string keeps_processCreate keeps_processModify
          keeps_processDelete keeps_processRenameOrLink)

lemma ProcessLoop_tracked:
  assumes "all_tracked h" and "ProcessLoop k d input h = Inr (Some (d', h'))"
  shows "all_tracked h'"
  using assms
proof (induction k d input h rule: ProcessLoop.induct)
  case (1 k d input h)
  from "1.prems"(2) obtain command rest where
    rd: "readCommand input = Inr (command, rest)"
    by (subst (asm) ProcessLoop.simps) (auto split: sum.splits)
  obtain r h1 where pc: "processCommand k d command h = (r, h1)"
    by (cases "processCommand k d command h")
  have t1: "all_tracked h1"
    using keepsD[OF keeps_processCommand "1.prems"(1), of k d command] pc by simp
  from "1.prems"(2) rd pc have
    "(case r of Inl e \<Rightarrow> Inl e
      | Inr Continue \<Rightarrow> ProcessLoop k d rest h1
      | Inr Stop \<Rightarrow> Inr (Some (d, h1))
      | Inr ReturnNil \<Rightarrow> Inr None) = Inr (Some (d', h'))"
    by (subst (asm) ProcessLoop.simps) simp
  then show ?case
  proof (cases r)
    case (Inl e)
    with \<open>(case r of Inl e \<Rightarrow> Inl e
      | Inr Continue \<Rightarrow> ProcessLoop k d rest h1
      | Inr Stop \<Rightarrow> Inr (Some (d, h1))
      | Inr ReturnNil \<Rightarrow> Inr None) = Inr (Some (d', h'))\<close> show ?thesis by simp
  next
    case (Inr c)
    show ?thesis
    proof (cases c)
      case Continue
      with Inr \<open>(case r of Inl e \<Rightarrow> Inl e
      | Inr Continue \<Rightarrow> ProcessLoop k d rest h1
      | Inr Stop \<Rightarrow> Inr (Some (d, h1))
      | Inr ReturnNil \<Rightarrow> Inr None) = Inr (Some (d', h'))\<close>
      have "ProcessLoop k d rest h1 = Inr (Some (d', h'))" by simp
      from "1.IH"[OF rd refl pc[symmetric] Inr Continue t1 this] show ?thesis .
    next
      case Stop
      with Inr \<open>(case r of Inl e \<Rightarrow> Inl e
      | Inr Continue \<Rightarrow> ProcessLoop k d rest h1
      | Inr Stop \<Rightarrow> Inr (Some (d, h1))
      | Inr ReturnNil \<Rightarrow> Inr None) = Inr (Some (d', h'))\<close> t1 show ?thesis by simp
    next
      case ReturnNil
      with Inr \<open>(case r of Inl e \<Rightarrow> Inl e
      | Inr Continue \<Rightarrow> ProcessLoop k d rest h1
      | Inr Stop \<Rightarrow> Inr (Some (d, h1))
      | Inr ReturnNil \<Rightarrow> Inr None) = Inr (Some (d', h'))\<close> show ?thesis by simp
    qed
  qed
qed

lemma ProcessBTRFSStream_tracked:
  assumes "ProcessBTRFSStream k stream = Inr (Some (d, h))"
  shows "all_tracked h"
proof -
  have e: "all_tracked empty_heap"
    by (simp add: all_tracked_def empty_heap_def writes_tracked_new)
  obtain r h0 where
    al: "alloc (new_DiffNode DiffNodeTypeDir [] opUnspec [] None (Some [])) empty_heap
           = (Inr r, h0)"
    by (simp add: alloc_def)
  have t0: "all_tracked h0"
    using keepsD[OF keeps_alloc[OF writes_tracked_new] e, of DiffNodeTypeDir "[]" opUnspec "[]"
            None "Some []"] al by simp
  from assms obtain input where v: "validateBTRFSStream stream = (None, input)"
    by (auto simp: ProcessBTRFSStream_def split: prod.splits option.splits)
  from assms v al have "ProcessLoop k \<lparr>root = r\<rparr> input h0 = Inr (Some (d, h))"
    by (simp add: ProcessBTRFSStream_def)
  from ProcessLoop_tracked[OF t0 this] show ?thesis .
qed


lemma ReadParam_OriginalType:
  "ReadParam c t = Inr (v, c') \<Longrightarrow> OriginalType c' = OriginalType c"
  by (auto simp: ReadParam_def split: if_splits sum.splits option.splits)

lemma Type_Op_WRITE:
  "OriginalType command = BTRFS_SEND_C_WRITE \<Longrightarrow> Type_Op command = opModify"
  by (simp add: Type_Op_def commandsDefs_def cmd_consts)

lemma Type_Op_UPDATE_EXTENT:
  "OriginalType command = BTRFS_SEND_C_UPDATE_EXTENT \<Longrightarrow> Type_Op command = opModify"
  by (simp add: Type_Op_def commandsDefs_def cmd_consts)

lemma processModify_WRITE:
  assumes "OriginalType c0 = BTRFS_SEND_C_WRITE"
      and "ReadParam c0 BTRFS_SEND_A_FILE_OFFSET = Inr (VUint64 off, c1)"
      and "ReadParam c1 BTRFS_SEND_A_DATA = Inr (VBytes bytes u, c2)"
      and "getNodeByPath d path h = Some node"
  shows "processModify j d path c0 h
           = (Inr (), h\<lparr>nodes := (nodes h)(node :=
                 record_write off (of_nat (length bytes)) (touch (nodes h node)))\<rparr>)"
  using assms
  by (simp add: processModify_def bnd_def gets_def ret_def upd_def ReadParam_uint64_def
        liftE_def touch_def)

lemma processModify_UPDATE_EXTENT:
  assumes "OriginalType c0 = BTRFS_SEND_C_UPDATE_EXTENT"
      and "ReadParam c0 BTRFS_SEND_A_FILE_OFFSET = Inr (VUint64 off, c1)"
      and "ReadParam c1 BTRFS_SEND_A_SIZE = Inr (VUint64 sz, c2)"
      and "getNodeByPath d path h = Some node"
  shows "processModify j d path c0 h
           = (Inr (), h\<lparr>nodes := (nodes h)(node :=
                 record_write off sz (touch (nodes h node)))\<rparr>)"
  using assms
  by (simp add: processModify_def bnd_def gets_def ret_def upd_def ReadParam_uint64_def
        liftE_def touch_def cmd_consts)

lemma processCommand_modify:
  assumes "OriginalType command = BTRFS_SEND_C_WRITE
           \<or> OriginalType command = BTRFS_SEND_C_UPDATE_EXTENT"
      and "ReadParam command BTRFS_SEND_A_PATH = Inr (VString path, c0)"
  shows "processCommand j d command h
           = bnd (processModify j d path c0) (\<lambda>_. ret Continue) h"
proof -
  have t: "Type_Op command = opModify"
    using assms(1) Type_Op_WRITE Type_Op_UPDATE_EXTENT by blast
  have o: "OriginalType c0 = OriginalType command"
    by (rule ReadParam_OriginalType[OF assms(2)])
  show ?thesis
    using assms(1)
    by (auto simp: processCommand_def t ReadParam_string_def assms(2) bnd_def ret_def o
          cmd_consts)
qed

lemma touch_fields:
  "Changes (touch x) = Changes x"
  "lastDataWrittenOffset (touch x) = lastDataWrittenOffset x"
  "lastDataWrittenLen (touch x) = lastDataWrittenLen x"
  by (simp_all add: touch_def)

lemma coalesces_touch: "coalesces (touch x) off = coalesces x off"
  by (simp add: coalesces_def touch_fields)

lemma coalesces_tracked:
  assumes "writes_tracked x"
  shows "coalesces x off = (\<exists>cs off1 len1. Changes x = cs @ [fmt_write off1 len1]
                               \<and> off = off1 + len1)"
proof
  assume c: "coalesces x off"
  then have ne: "Changes x \<noteq> []" and p: "HasPrefix (last (Changes x)) ''write''"
    and s: "lastDataWrittenOffset x + lastDataWrittenLen x = off"
    by (auto simp: coalesces_def)
  from assms ne p have "last (Changes x) = fmt_write (lastDataWrittenOffset x) (lastDataWrittenLen x)"
    by (simp add: writes_tracked_def)
  with ne have "Changes x = butlast (Changes x)
                  @ [fmt_write (lastDataWrittenOffset x) (lastDataWrittenLen x)]"
    by (metis append_butlast_last_id)
  with s show "\<exists>cs off1 len1. Changes x = cs @ [fmt_write off1 len1] \<and> off = off1 + len1"
    by blast
next
  assume "\<exists>cs off1 len1. Changes x = cs @ [fmt_write off1 len1] \<and> off = off1 + len1"
  then obtain cs off1 len1 where c: "Changes x = cs @ [fmt_write off1 len1]"
    and o: "off = off1 + len1" by blast
  from assms c have "fmt_write off1 len1
        = fmt_write (lastDataWrittenOffset x) (lastDataWrittenLen x)"
    by (simp add: writes_tracked_def fmt_write_prefix)
  then have "lastDataWrittenOffset x = off1 \<and> lastDataWrittenLen x = len1"
    using fmt_write_inj by metis
  with c o show "coalesces x off"
    by (simp add: coalesces_def fmt_write_prefix)
qed

lemma record_write_tracked:
  assumes t: "writes_tracked x"
  shows "(\<forall>cs off1 len1. Changes x = cs @ [fmt_write off1 len1] \<and> off = off1 + len1 \<longrightarrow>
            Changes (record_write off len (touch x)) = cs @ [fmt_write off1 (len + len1)]
            \<and> lastDataWrittenOffset (record_write off len (touch x)) = off1
            \<and> lastDataWrittenLen (record_write off len (touch x)) = len + len1)
       \<and> ((\<forall>cs off1 len1. Changes x = cs @ [fmt_write off1 len1] \<longrightarrow> off \<noteq> off1 + len1) \<longrightarrow>
            Changes (record_write off len (touch x)) = Changes x @ [fmt_write off len]
            \<and> lastDataWrittenOffset (record_write off len (touch x)) = off
            \<and> lastDataWrittenLen (record_write off len (touch x)) = len)"
proof (intro conjI allI impI)
  fix cs off1 len1
  assume a: "Changes x = cs @ [fmt_write off1 len1] \<and> off = off1 + len1"
  then have co: "coalesces x off" using coalesces_tracked[OF t] by blast
  from t a have "fmt_write off1 len1
        = fmt_write (lastDataWrittenOffset x) (lastDataWrittenLen x)"
    by (simp add: writes_tracked_def fmt_write_prefix)
  then have l: "lastDataWrittenOffset x = off1 \<and> lastDataWrittenLen x = len1"
    using fmt_write_inj by metis
  show "Changes (record_write off len (touch x)) = cs @ [fmt_write off1 (len + len1)]"
    using co a l by (simp add: record_write_changes coalesces_touch touch_fields)
  show "lastDataWrittenOffset (record_write off len (touch x)) = off1"
    using co l by (simp add: record_write_def Let_def coalesces_touch touch_fields)
  show "lastDataWrittenLen (record_write off len (touch x)) = len + len1"
    using co l by (simp add: record_write_def Let_def coalesces_touch touch_fields)
next
  assume a: "\<forall>cs off1 len1. Changes x = cs @ [fmt_write off1 len1] \<longrightarrow> off \<noteq> off1 + len1"
  then have co: "\<not> coalesces x off" using coalesces_tracked[OF t] by blast
  show "Changes (record_write off len (touch x)) = Changes x @ [fmt_write off len]"
    using co by (simp add: record_write_changes coalesces_touch touch_fields)
  show "lastDataWrittenOffset (record_write off len (touch x)) = off"
    using co by (simp add: record_write_def Let_def coalesces_touch touch_fields)
  show "lastDataWrittenLen (record_write off len (touch x)) = len"
    using co by (simp add: record_write_def Let_def coalesces_touch touch_fields)
qed

lemma write_step:
  assumes rd: "readCommand input = Inr (command, input')"
      and pa: "ReadParam command BTRFS_SEND_A_PATH = Inr (VString path, c0)"
      and fo: "ReadParam c0 BTRFS_SEND_A_FILE_OFFSET = Inr (VUint64 off, c1)"
      and ty: "OriginalType command = BTRFS_SEND_C_WRITE
                 \<and> (\<exists>bytes u. ReadParam c1 BTRFS_SEND_A_DATA = Inr (VBytes bytes u, c2)
                      \<and> len = of_nat (length bytes))
               \<or> OriginalType command = BTRFS_SEND_C_UPDATE_EXTENT
                 \<and> ReadParam c1 BTRFS_SEND_A_SIZE = Inr (VUint64 len, c2)"
      and nd: "getNodeByPath d path h = Some node"
  shows "processCommand j d command h
           = (Inr Continue, h\<lparr>nodes := (nodes h)(node :=
                 record_write off len (touch (nodes h node)))\<rparr>)
       \<and> ProcessLoop j d input h
           = ProcessLoop j d input' (h\<lparr>nodes := (nodes h)(node :=
                 record_write off len (touch (nodes h node)))\<rparr>)"
proof -
  have o: "OriginalType c0 = OriginalType command"
    by (rule ReadParam_OriginalType[OF pa])
  have k: "OriginalType command = BTRFS_SEND_C_WRITE
           \<or> OriginalType command = BTRFS_SEND_C_UPDATE_EXTENT"
    using ty by blast
  have m: "processModify j d path c0 h
           = (Inr (), h\<lparr>nodes := (nodes h)(node :=
                 record_write off len (touch (nodes h node)))\<rparr>)"
    using ty
  proof
    assume "OriginalType command = BTRFS_SEND_C_WRITE
                 \<and> (\<exists>bytes u. ReadParam c1 BTRFS_SEND_A_DATA = Inr (VBytes bytes u, c2)
                      \<and> len = of_nat (length bytes))"
    then obtain bytes u where w: "OriginalType c0 = BTRFS_SEND_C_WRITE"
      and dt: "ReadParam c1 BTRFS_SEND_A_DATA = Inr (VBytes bytes u, c2)"
      and l: "len = of_nat (length bytes)" using o by auto
    show ?thesis unfolding l by (rule processModify_WRITE[OF w fo dt nd])
  next
    assume "OriginalType command = BTRFS_SEND_C_UPDATE_EXTENT
                 \<and> ReadParam c1 BTRFS_SEND_A_SIZE = Inr (VUint64 len, c2)"
    then have w: "OriginalType c0 = BTRFS_SEND_C_UPDATE_EXTENT"
      and sz: "ReadParam c1 BTRFS_SEND_A_SIZE = Inr (VUint64 len, c2)" using o by auto
    show ?thesis by (rule processModify_UPDATE_EXTENT[OF w fo sz nd])
  qed
  have pc: "processCommand j d command h
           = (Inr Continue, h\<lparr>nodes := (nodes h)(node :=
                 record_write off len (touch (nodes h node)))\<rparr>)"
    by (simp add: processCommand_modify[OF k pa] bnd_def m ret_def)
  show ?thesis
    by (simp add: pc ProcessLoop.simps[of j d input h] rd)
qed

lemma peekAndDiscard_split:
  assumes "peekAndDiscard a n = Inr (b, a')"
  shows "\<exists>p. a = p @ a' \<and> length p = n \<and> (\<forall>x. peekAndDiscard (p @ x) n = Inr (b, x))"
proof -
  from assms have l: "n \<le> length a" and b: "b = take n a" and a': "a' = drop n a"
    by (auto simp: peekAndDiscard_def split: if_splits)
  show ?thesis
    by (rule exI[of _ "take n a"]) (use l b a' in \<open>simp add: peekAndDiscard_def\<close>)
qed

lemma readCommand_split:
  assumes "readCommand a = Inr (c, a')"
  shows "\<exists>p. a = p @ a' \<and> (\<forall>x. readCommand (p @ x) = Inr (c, x))"
proof -
  from assms obtain b1 a1 sz b2 a2 ty b3 a3 b4 where
    p1: "peekAndDiscard a 4 = Inr (b1, a1)" and u1: "Uint32 b1 = Inr sz" and
    p2: "peekAndDiscard a1 2 = Inr (b2, a2)" and u2: "Uint16 b2 = Inr ty" and
    mx: "\<not> unat ty > BTRFS_SEND_C_MAX" and
    p3: "peekAndDiscard a2 4 = Inr (b3, a3)" and
    p4: "peekAndDiscard a3 (unat sz) = Inr (b4, a')" and
    c: "c = \<lparr>OriginalType = unat ty, data = b4\<rparr>"
    by (auto simp: readCommand_def split: sum.splits if_splits)
  from peekAndDiscard_split[OF p1] obtain q1 where
    q1: "a = q1 @ a1" "\<And>x. peekAndDiscard (q1 @ x) 4 = Inr (b1, x)" by blast
  from peekAndDiscard_split[OF p2] obtain q2 where
    q2: "a1 = q2 @ a2" "\<And>x. peekAndDiscard (q2 @ x) 2 = Inr (b2, x)" by blast
  from peekAndDiscard_split[OF p3] obtain q3 where
    q3: "a2 = q3 @ a3" "\<And>x. peekAndDiscard (q3 @ x) 4 = Inr (b3, x)" by blast
  from peekAndDiscard_split[OF p4] obtain q4 where
    q4: "a3 = q4 @ a'" "\<And>x. peekAndDiscard (q4 @ x) (unat sz) = Inr (b4, x)" by blast
  have "readCommand ((q1 @ q2 @ q3 @ q4) @ x) = Inr (c, x)" for x
    using q1(2)[of "q2 @ q3 @ q4 @ x"] q2(2)[of "q3 @ q4 @ x"] q3(2)[of "q4 @ x"] q4(2)[of x]
      u1 u2 mx c
    by (simp add: readCommand_def)
  moreover have "a = (q1 @ q2 @ q3 @ q4) @ a'"
    using q1(1) q2(1) q3(1) q4(1) by simp
  ultimately show ?thesis by blast
qed

lemma processCommand_Stop:
  assumes "processCommand k d c h = (Inr Stop, h')"
  shows "h' = h"
  using assms
  by (auto simp: processCommand_def bnd_def ret_def fail_def errors_Wrap_def
           split: operation.splits prod.splits sum.splits if_splits option.splits)

lemma ProcessLoop_prefix:
  assumes "ProcessLoop k d a h0 = Inr (Some (d', h))"
  shows "d' = d
       \<and> (\<exists>pre. prefix pre a \<and> (\<forall>x. ProcessLoop k d (pre @ x) h0 = ProcessLoop k d x h))"
  using assms
proof (induction k d a h0 rule: ProcessLoop.induct)
  case (1 k d input h0)
  from "1.prems" obtain c input' where rd: "readCommand input = Inr (c, input')"
    by (auto simp: ProcessLoop.simps[of k d input h0] split: sum.splits)
  from readCommand_split[OF rd] obtain p where
    p: "input = p @ input'" and px: "\<And>x. readCommand (p @ x) = Inr (c, x)" by blast
  obtain r h1 where pc: "processCommand k d c h0 = (r, h1)" by (cases "processCommand k d c h0")
  from "1.prems" rd pc obtain ctl where r: "r = Inr ctl"
    by (cases r) (auto simp: ProcessLoop.simps[of k d input h0])
  show ?case
  proof (cases ctl)
    case Continue
    from "1.prems" rd pc r Continue have run': "ProcessLoop k d input' h1 = Inr (Some (d', h))"
      by (simp add: ProcessLoop.simps[of k d input h0])
    from "1.IH"[OF rd refl pc[symmetric] r Continue run'] obtain pre where
      dd: "d' = d" and pre: "prefix pre input'" and
      px': "\<And>x. ProcessLoop k d (pre @ x) h1 = ProcessLoop k d x h" by blast
    have "ProcessLoop k d ((p @ pre) @ x) h0 = ProcessLoop k d x h" for x
      using px[of "pre @ x"] pc r Continue px'[of x]
      by (simp add: ProcessLoop.simps[of k d "p @ pre @ x" h0])
    moreover have "prefix (p @ pre) input" using p pre by simp
    ultimately show ?thesis using dd by blast
  next
    case Stop
    from "1.prems" rd pc r Stop have "h = h1" and dd: "d' = d"
      by (simp_all add: ProcessLoop.simps[of k d input h0])
    moreover from pc r Stop have "h1 = h0" using processCommand_Stop by blast
    ultimately have "ProcessLoop k d ([] @ x) h0 = ProcessLoop k d x h" for x by simp
    then show ?thesis using dd by (intro conjI exI[of _ "[]"]) simp_all
  next
    case ReturnNil
    with "1.prems" rd pc r show ?thesis
      by (simp add: ProcessLoop.simps[of k d input h0])
  qed
qed

lemma ReadString_NUL_split:
  assumes "ReadString_NUL a = Inr (s, a')"
  shows "\<exists>p. a = p @ a' \<and> (\<forall>x. ReadString_NUL (p @ x) = Inr (s, x))"
proof (cases "dropWhile (\<lambda>c. c \<noteq> CHR 0x00) a")
  case Nil
  with assms show ?thesis by (simp add: ReadString_NUL_def)
next
  case (Cons z r)
  define tw where "tw = takeWhile (\<lambda>c. c \<noteq> CHR 0x00) a"
  from assms Cons have s: "s = tw @ [z]" and r: "a' = r"
    by (simp_all add: ReadString_NUL_def tw_def)
  have z: "z = CHR 0x00"
    using hd_dropWhile[of "\<lambda>c. c \<noteq> CHR 0x00" a] Cons by simp
  have tws: "\<And>c. c \<in> set tw \<Longrightarrow> c \<noteq> CHR 0x00"
    unfolding tw_def by (rule set_takeWhileD[THEN conjunct2])
  have a: "a = (tw @ [z]) @ a'"
    using takeWhile_dropWhile_id[of "\<lambda>c. c \<noteq> CHR 0x00" a] Cons r by (simp add: tw_def)
  have "ReadString_NUL ((tw @ [z]) @ x) = Inr (s, x)" for x
  proof -
    have t: "takeWhile (\<lambda>c. c \<noteq> CHR 0x00) (tw @ z # x) = tw"
      using tws z by (simp add: takeWhile_append2)
    have dd: "dropWhile (\<lambda>c. c \<noteq> CHR 0x00) (tw @ z # x) = z # x"
      using tws z by (simp add: dropWhile_append2)
    show ?thesis by (simp add: ReadString_NUL_def t dd s)
  qed
  with a show ?thesis by blast
qed

lemma validateBTRFSStream_split:
  assumes "validateBTRFSStream s = (None, input)"
  shows "\<exists>p. s = p @ input \<and> (\<forall>x. validateBTRFSStream (p @ x) = (None, x))"
proof -
  from assms obtain hd1 a1 where r: "ReadString_NUL s = Inr (hd1, a1)"
    by (auto simp: validateBTRFSStream_def errors_Wrap_def split: sum.splits)
  from ReadString_NUL_split[OF r] obtain p1 where
    p1: "s = p1 @ a1" "\<And>x. ReadString_NUL (p1 @ x) = Inr (hd1, x)" by blast
  show ?thesis
  proof (cases "butlast hd1 \<noteq> BTRFS_SEND_STREAM_MAGIC")
    case True
    with assms r have "input = a1" by (simp add: validateBTRFSStream_def errors_Wrap_def)
    moreover have "validateBTRFSStream (p1 @ x) = (None, x)" for x
      using True p1(2)[of x] by (simp add: validateBTRFSStream_def errors_Wrap_def)
    ultimately show ?thesis using p1(1) by blast
  next
    case False
    with assms r obtain vb a2 ver where
      pk: "peekAndDiscard a1 4 = Inr (vb, a2)" and u: "Uint32 vb = Inr ver" and
      i: "input = a2"
      by (auto simp: validateBTRFSStream_def errors_Wrap_def split: sum.splits if_splits)
    from peekAndDiscard_split[OF pk] obtain p2 where
      p2: "a1 = p2 @ a2" "\<And>x. peekAndDiscard (p2 @ x) 4 = Inr (vb, x)" by blast
    have "validateBTRFSStream ((p1 @ p2) @ x) = (None, x)" for x
      using False p1(2)[of "p2 @ x"] p2(2)[of x] u
      by (simp add: validateBTRFSStream_def errors_Wrap_def)
    then show ?thesis using p1(1) p2(1) i by (intro exI[of _ "p1 @ p2"]) simp
  qed
qed

lemma ProcessBTRFSStream_prefix:
  assumes "ProcessBTRFSStream k stream = Inr (Some (d, h))"
  shows "\<exists>pre. prefix pre stream
           \<and> (\<forall>x. ProcessBTRFSStream k (pre @ x) = ProcessLoop k d x h)"
proof -
  obtain r h0 where al: "alloc (new_DiffNode DiffNodeTypeDir [] opUnspec [] None (Some []))
                           empty_heap = (Inr r, h0)"
    by (simp add: alloc_def)
  from assms obtain input where v: "validateBTRFSStream stream = (None, input)"
    by (auto simp: ProcessBTRFSStream_def split: prod.splits option.splits)
  from assms v al have run: "ProcessLoop k \<lparr>root = r\<rparr> input h0 = Inr (Some (d, h))"
    by (simp add: ProcessBTRFSStream_def)
  from validateBTRFSStream_split[OF v] obtain p where
    p: "stream = p @ input" "\<And>x. validateBTRFSStream (p @ x) = (None, x)" by blast
  from ProcessLoop_prefix[OF run] obtain pre where
    d: "d = \<lparr>root = r\<rparr>" and
    pre: "prefix pre input" "\<And>x. ProcessLoop k \<lparr>root = r\<rparr> (pre @ x) h0
                                  = ProcessLoop k \<lparr>root = r\<rparr> x h" by blast
  have "ProcessBTRFSStream k ((p @ pre) @ x) = ProcessLoop k d x h" for x
    using p(2)[of "pre @ x"] al pre(2)[of x] d by (simp add: ProcessBTRFSStream_def)
  moreover have "prefix (p @ pre) stream" using p(1) pre(1) by simp
  ultimately show ?thesis by blast
qed

text \<open>
  Claim C7. Let a run come to \<^verbatim>\<open>END\<close> with the tree \<open>h\<close>. No node of \<open>h\<close> has two adjacent
  write descriptors that are contiguous in offset. The tree \<open>h\<close> is the one the loop
  holds after the commands before that \<^verbatim>\<open>END\<close>, whatever follows them in the stream. And
  when the command the loop reads next in that tree is a \<^verbatim>\<open>WRITE\<close> with \<open>len\<close> bytes of
  data, or an \<^verbatim>\<open>UPDATE_EXTENT\<close> of size \<open>len\<close>, at the offset \<open>off\<close> and to the path of a
  node of the tree, the command succeeds, the loop goes on with the rest of the input,
  no other node changes, and the changes of the node are these: if the last one is the
  write descriptor of offset \<open>off1\<close> and length \<open>len1\<close> and \<open>off = off1 + len1\<close> (in 64
  bits), it is replaced by the descriptor of offset \<open>off1\<close> and length \<open>len + len1\<close>,
  which the two transient fields then hold; if the last one is no write descriptor that
  ends at \<open>off\<close>, the descriptor of offset \<open>off\<close> and length \<open>len\<close> is appended.
\<close>

theorem write_coalescing:
  assumes "ProcessBTRFSStream k stream = Inr (Some (d, h))"
  shows "no_contiguous_writes (Changes (nodes h n))
       \<and> (\<exists>pre. prefix pre stream
              \<and> (\<forall>rest. ProcessBTRFSStream k (pre @ rest) = ProcessLoop k d rest h))
       \<and> (\<forall>input command input' path c0 off c1 c2 len node.
            readCommand input = Inr (command, input')
            \<and> ReadParam command BTRFS_SEND_A_PATH = Inr (VString path, c0)
            \<and> ReadParam c0 BTRFS_SEND_A_FILE_OFFSET = Inr (VUint64 off, c1)
            \<and> (OriginalType command = BTRFS_SEND_C_WRITE
                 \<and> (\<exists>bytes u. ReadParam c1 BTRFS_SEND_A_DATA = Inr (VBytes bytes u, c2)
                      \<and> len = of_nat (length bytes))
               \<or> OriginalType command = BTRFS_SEND_C_UPDATE_EXTENT
                 \<and> ReadParam c1 BTRFS_SEND_A_SIZE = Inr (VUint64 len, c2))
            \<and> getNodeByPath d path h = Some node
            \<longrightarrow>
            fst (processCommand j d command h) = Inr Continue
            \<and> ProcessLoop j d input h
                = ProcessLoop j d input' (snd (processCommand j d command h))
            \<and> (\<forall>a. a \<noteq> node \<longrightarrow> nodes (snd (processCommand j d command h)) a = nodes h a)
            \<and> (\<forall>cs off1 len1.
                  Changes (nodes h node) = cs @ [fmt_write off1 len1] \<and> off = off1 + len1 \<longrightarrow>
                  Changes (nodes (snd (processCommand j d command h)) node)
                    = cs @ [fmt_write off1 (len + len1)]
                  \<and> lastDataWrittenOffset (nodes (snd (processCommand j d command h)) node) = off1
                  \<and> lastDataWrittenLen (nodes (snd (processCommand j d command h)) node)
                      = len + len1)
            \<and> ((\<forall>cs off1 len1. Changes (nodes h node) = cs @ [fmt_write off1 len1]
                    \<longrightarrow> off \<noteq> off1 + len1) \<longrightarrow>
                  Changes (nodes (snd (processCommand j d command h)) node)
                    = Changes (nodes h node) @ [fmt_write off len]
                  \<and> lastDataWrittenOffset (nodes (snd (processCommand j d command h)) node) = off
                  \<and> lastDataWrittenLen (nodes (snd (processCommand j d command h)) node) = len))"
proof -
  have at: "all_tracked h" by (rule ProcessBTRFSStream_tracked[OF assms])
  then have t: "writes_tracked (nodes h a)" for a by (simp add: all_tracked_def)
  have A: "no_contiguous_writes (Changes (nodes h n))"
    using t by (simp add: writes_tracked_def)
  have B: "fst (processCommand j d command h) = Inr Continue
            \<and> ProcessLoop j d input h
                = ProcessLoop j d input' (snd (processCommand j d command h))
            \<and> (\<forall>a. a \<noteq> node \<longrightarrow> nodes (snd (processCommand j d command h)) a = nodes h a)
            \<and> (\<forall>cs off1 len1.
                  Changes (nodes h node) = cs @ [fmt_write off1 len1] \<and> off = off1 + len1 \<longrightarrow>
                  Changes (nodes (snd (processCommand j d command h)) node)
                    = cs @ [fmt_write off1 (len + len1)]
                  \<and> lastDataWrittenOffset (nodes (snd (processCommand j d command h)) node) = off1
                  \<and> lastDataWrittenLen (nodes (snd (processCommand j d command h)) node)
                      = len + len1)
            \<and> ((\<forall>cs off1 len1. Changes (nodes h node) = cs @ [fmt_write off1 len1]
                    \<longrightarrow> off \<noteq> off1 + len1) \<longrightarrow>
                  Changes (nodes (snd (processCommand j d command h)) node)
                    = Changes (nodes h node) @ [fmt_write off len]
                  \<and> lastDataWrittenOffset (nodes (snd (processCommand j d command h)) node) = off
                  \<and> lastDataWrittenLen (nodes (snd (processCommand j d command h)) node) = len)"
    if rd: "readCommand input = Inr (command, input')"
      and pa: "ReadParam command BTRFS_SEND_A_PATH = Inr (VString path, c0)"
      and fo: "ReadParam c0 BTRFS_SEND_A_FILE_OFFSET = Inr (VUint64 off, c1)"
      and ty: "OriginalType command = BTRFS_SEND_C_WRITE
                 \<and> (\<exists>bytes u. ReadParam c1 BTRFS_SEND_A_DATA = Inr (VBytes bytes u, c2)
                      \<and> len = of_nat (length bytes))
               \<or> OriginalType command = BTRFS_SEND_C_UPDATE_EXTENT
                 \<and> ReadParam c1 BTRFS_SEND_A_SIZE = Inr (VUint64 len, c2)"
      and nd: "getNodeByPath d path h = Some node"
    for input command input' path c0 off c1 c2 len node
  proof -
    note st = write_step[OF rd pa fo ty nd, of j]
    have pc: "processCommand j d command h
           = (Inr Continue, h\<lparr>nodes := (nodes h)(node :=
                 record_write off len (touch (nodes h node)))\<rparr>)"
      using st by blast
    have lp: "ProcessLoop j d input h
           = ProcessLoop j d input' (h\<lparr>nodes := (nodes h)(node :=
                 record_write off len (touch (nodes h node)))\<rparr>)"
      using st by blast
    show ?thesis
      unfolding pc using lp record_write_tracked[OF t, of node off len] by simp
  qed
  note P = ProcessBTRFSStream_prefix[OF assms]
  show ?thesis using A P B by blast
qed

theorem write_coalescing_witness:
  "ProcessBTRFSStream 3 write_stream = Inr (Some (\<lparr>root = 0\<rparr>, final_heap 3 write_stream))
   \<and> Changes (nodes (final_heap 3 write_stream) 1)
       = [''write:offset=0:data_len=7'', ''write:offset=100:data_len=50'', ''chmod:mode=644'',
          ''write:offset=150:data_len=8'']
   \<and> no_contiguous_writes
        [''write:offset=0:data_len=7'', ''write:offset=100:data_len=50'', ''chmod:mode=644'',
         ''write:offset=150:data_len=8'']
   \<and> readCommand (next_write @ wire_cmd BTRFS_SEND_C_END [])
       = Inr (\<lparr>OriginalType = 15, data = drop 10 next_write\<rparr>, wire_cmd BTRFS_SEND_C_END [])
   \<and> getNodeByPath \<lparr>root = 0\<rparr> ''f'' (final_heap 3 write_stream) = Some 1
   \<and> fst (processCommand 3 \<lparr>root = 0\<rparr> \<lparr>OriginalType = 15, data = drop 10 next_write\<rparr>
            (final_heap 3 write_stream)) = Inr Continue
   \<and> Changes (nodes (snd (processCommand 3 \<lparr>root = 0\<rparr>
                            \<lparr>OriginalType = 15, data = drop 10 next_write\<rparr>
                            (final_heap 3 write_stream))) 1)
       = [''write:offset=0:data_len=7'', ''write:offset=100:data_len=50'', ''chmod:mode=644'',
          ''write:offset=150:data_len=10'']"
proof -
  have run: "ProcessBTRFSStream 3 write_stream = Inr (Some (\<lparr>root = 0\<rparr>, (final_heap 3 write_stream)))"
    by (simp add: exec)
  have ch: "Changes (nodes (final_heap 3 write_stream) 1)
       = [''write:offset=0:data_len=7'', ''write:offset=100:data_len=50'', ''chmod:mode=644'']
          @ [fmt_write 150 8]"
    by (simp add: exec)
  have rd: "readCommand (next_write @ wire_cmd BTRFS_SEND_C_END [])
       = Inr (\<lparr>OriginalType = 15, data = drop 10 next_write\<rparr>, wire_cmd BTRFS_SEND_C_END [])"
    by (simp add: wire_defs byte_defs cmd_consts attr_consts next_write_def)
  have ty: "OriginalType \<lparr>OriginalType = 15, data = drop 10 next_write\<rparr> = BTRFS_SEND_C_WRITE" by (simp add: cmd_consts)
  have pa: "ReadParam \<lparr>OriginalType = 15, data = drop 10 next_write\<rparr> BTRFS_SEND_A_PATH = Inr (VString ''f'', \<lparr>OriginalType = 15, data = drop 15 next_write\<rparr>)"
    by (simp add: exec)
  have fo: "ReadParam \<lparr>OriginalType = 15, data = drop 15 next_write\<rparr> BTRFS_SEND_A_FILE_OFFSET = Inr (VUint64 158, \<lparr>OriginalType = 15, data = drop 27 next_write\<rparr>)"
    by (simp add: exec)
  have dt: "ReadParam \<lparr>OriginalType = 15, data = drop 27 next_write\<rparr> BTRFS_SEND_A_DATA = Inr (VBytes ''xy'' (utf8_Valid ''xy''), \<lparr>OriginalType = 15, data = drop 33 next_write\<rparr>)"
    by (simp add: exec)
  have nd: "getNodeByPath \<lparr>root = 0\<rparr> ''f'' (final_heap 3 write_stream) = Some 1"
    by (simp add: exec)
  have sum: "(158 :: 64 word) = 150 + 8" by simp
  have len: "(2 :: 64 word) = of_nat (length ''xy'')" by simp
  have m: "fmt_write 150 (2 + 8) = ''write:offset=150:data_len=10''"
    by (simp add: exec)
  have m8: "fmt_write 150 8 = ''write:offset=150:data_len=8''"
    by (simp add: exec)
  have hyp: "readCommand (next_write @ wire_cmd BTRFS_SEND_C_END [])
       = Inr (\<lparr>OriginalType = 15, data = drop 10 next_write\<rparr>, wire_cmd BTRFS_SEND_C_END [])
     \<and> ReadParam \<lparr>OriginalType = 15, data = drop 10 next_write\<rparr> BTRFS_SEND_A_PATH
         = Inr (VString ''f'', \<lparr>OriginalType = 15, data = drop 15 next_write\<rparr>)
     \<and> ReadParam \<lparr>OriginalType = 15, data = drop 15 next_write\<rparr> BTRFS_SEND_A_FILE_OFFSET
         = Inr (VUint64 158, \<lparr>OriginalType = 15, data = drop 27 next_write\<rparr>)
     \<and> (OriginalType \<lparr>OriginalType = 15, data = drop 10 next_write\<rparr> = BTRFS_SEND_C_WRITE
          \<and> (\<exists>bytes u. ReadParam \<lparr>OriginalType = 15, data = drop 27 next_write\<rparr>
                           BTRFS_SEND_A_DATA
                         = Inr (VBytes bytes u, \<lparr>OriginalType = 15, data = drop 33 next_write\<rparr>)
                      \<and> (2 :: 64 word) = of_nat (length bytes))
        \<or> OriginalType \<lparr>OriginalType = 15, data = drop 10 next_write\<rparr>
            = BTRFS_SEND_C_UPDATE_EXTENT
          \<and> ReadParam \<lparr>OriginalType = 15, data = drop 27 next_write\<rparr> BTRFS_SEND_A_SIZE
              = Inr (VUint64 2, \<lparr>OriginalType = 15, data = drop 33 next_write\<rparr>))
     \<and> getNodeByPath \<lparr>root = 0\<rparr> ''f'' (final_heap 3 write_stream) = Some 1"
    using rd pa fo dt ty nd len by blast
  note th = write_coalescing [OF run, of 1 3]
  note step = th [THEN conjunct2, THEN conjunct2, rule_format, OF hyp]
  note mrg = step [THEN conjunct2, THEN conjunct2, THEN conjunct2, THEN conjunct1, rule_format,
                   OF conjI [OF ch sum]]
  have nc: "no_contiguous_writes (Changes (nodes (final_heap 3 write_stream) 1))"
    using th by (rule conjunct1)
  have ok: "fst (processCommand 3 \<lparr>root = 0\<rparr> \<lparr>OriginalType = 15, data = drop 10 next_write\<rparr>
            (final_heap 3 write_stream)) = Inr Continue"
    using step by (rule conjunct1)
  show ?thesis
    using run rd nd ch m m8 nc ok mrg by simp
qed

section \<open>Attaching a node\<close>

























































end
